theory Spec2Isabelle
  imports Main "HOL-Library.Word" "HOL-Library.AList"
begin

section \<open>Python values and exceptions\<close>

text \<open>
  The values that flow through \<^verbatim>\<open>table_properties/db.py\<close>. A Python \<^verbatim>\<open>dict\<close> with string
  keys is an association list in insertion order (\<open>AList.update\<close> overwrites in place or
  appends, as an assignment \<^verbatim>\<open>d[k] = v\<close> does). The two driver classes the code tests with
  \<^verbatim>\<open>isinstance\<close>, \<^verbatim>\<open>cassandra.util.OrderedMapSerializedKey\<close> and
  \<^verbatim>\<open>cassandra.util.SortedSet\<close>, have constructors of their own, holding their entries in
  iteration order. A float is its IEEE binary64 bit pattern, a UUID its 128 bits.
\<close>

datatype pyval =
    PNone
  | PBool bool
  | PInt int
  | PFloat "64 word"
  | PStr string
  | PList "pyval list"
  | PDict "(string \<times> pyval) list"
  | POrderedMap "(string \<times> pyval) list"
  | PSortedSet "pyval list"
  | PUUID "128 word"
  | PRoundRobinPolicy

type_synonym pydict = "(string \<times> pyval) list"
type_synonym row = "(string \<times> pyval) list"

text \<open>
  Exceptions as values. \<open>Exception msg\<close> is an instance of the class \<^verbatim>\<open>Exception\<close> itself,
  \<open>DriverError\<close> any other subclass of \<^verbatim>\<open>Exception\<close> the driver raises, and \<open>Interrupt\<close>
  stands for \<^verbatim>\<open>KeyboardInterrupt\<close> and \<^verbatim>\<open>SystemExit\<close>, which derive from
  \<^verbatim>\<open>BaseException\<close> only and so pass an \<^verbatim>\<open>except Exception\<close> clause.
\<close>

datatype exn =
    AttributeError
  | TypeError
  | KeyError
  | IndexError
  | NoHostAvailable string
  | Exception string
  | DriverError string
  | Interrupt

definition isinstance_Exception :: "exn \<Rightarrow> bool" where
  "isinstance_Exception ex = (ex \<noteq> Interrupt)"

definition isinstance_NoHostAvailable :: "exn \<Rightarrow> bool" where
  "isinstance_NoHostAvailable ex = (case ex of NoHostAvailable d \<Rightarrow> True | _ \<Rightarrow> False)"

text \<open>
  The builtins \<^verbatim>\<open>int\<close>, \<^verbatim>\<open>float\<close> and \<^verbatim>\<open>str\<close> belong to the interpreter, not to the
  repository: the development is parametric in them. \<open>int_of s = None\<close> and
  \<open>float_of s = None\<close> stand for the \<^verbatim>\<open>ValueError\<close> the builtin raises on a string it
  cannot parse; \<open>str_of\<close> is \<^verbatim>\<open>str\<close> on values that are not strings already.
\<close>

record builtins =
  int_of :: "string \<Rightarrow> int option"
  float_of :: "string \<Rightarrow> 64 word option"
  str_of :: "pyval \<Rightarrow> string"

definition py_str :: "builtins \<Rightarrow> pyval \<Rightarrow> string" where
  "py_str b v = (case v of PStr s \<Rightarrow> s | _ \<Rightarrow> str_of b v)"

section \<open>String and dictionary primitives\<close>

text \<open>\<^verbatim>\<open>s.split(sep)\<close> for a separator of one character: never the empty list.\<close>

fun py_split :: "char \<Rightarrow> string \<Rightarrow> string list" where
  "py_split sep [] = [[]]"
| "py_split sep (c # cs) =
     (if c = sep then [] # py_split sep cs
      else (case py_split sep cs of
              [] \<Rightarrow> [[c]]
            | w # ws \<Rightarrow> (c # w) # ws))"

text \<open>\<^verbatim>\<open>xs[-1]\<close>: the last element, \<^verbatim>\<open>IndexError\<close> on the empty list.\<close>

definition py_last :: "'a list \<Rightarrow> exn + 'a" where
  "py_last xs = (case rev xs of [] \<Rightarrow> Inl IndexError | x # _ \<Rightarrow> Inr x)"

text \<open>\<^verbatim>\<open>s.lower()\<close> on the bytes of the string: the ASCII capitals move, the rest stays.\<close>

definition lower_char :: "char \<Rightarrow> char" where
  "lower_char c =
     (if (65::nat) \<le> of_char c \<and> of_char c \<le> (90::nat)
      then char_of (of_char c + (32::nat)) else c)"

definition py_lower :: "pyval \<Rightarrow> exn + string" where
  "py_lower v = (case v of PStr s \<Rightarrow> Inr (map lower_char s) | _ \<Rightarrow> Inl AttributeError)"

definition startswith :: "string \<Rightarrow> string \<Rightarrow> bool" where
  "startswith s p = (take (length p) s = p)"

text \<open>\<^verbatim>\<open>d.get(k, default)\<close> and \<^verbatim>\<open>d[k]\<close>.\<close>

definition dict_get :: "(string \<times> pyval) list \<Rightarrow> string \<Rightarrow> pyval \<Rightarrow> pyval" where
  "dict_get d k dflt = (case map_of d k of Some v \<Rightarrow> v | None \<Rightarrow> dflt)"

definition dict_getitem :: "(string \<times> pyval) list \<Rightarrow> string \<Rightarrow> exn + pyval" where
  "dict_getitem d k = (case map_of d k of Some v \<Rightarrow> Inr v | None \<Rightarrow> Inl KeyError)"

definition is_ordered_map :: "pyval \<Rightarrow> bool" where
  "is_ordered_map v = (case v of POrderedMap m \<Rightarrow> True | _ \<Rightarrow> False)"

section \<open>Connection parameters\<close>

definition DEFAULT_PORT :: int where
  "DEFAULT_PORT = 9042"

definition get_local_connection :: pydict where
  "get_local_connection =
     [(''hosts'', PList [PStr ''localhost'']),
      (''port'', PInt DEFAULT_PORT),
      (''load_balancing_policy'', PRoundRobinPolicy)]"

definition get_default_connection :: pydict where
  "get_default_connection = get_local_connection"

section \<open>Value normalizers\<close>

definition get_class_name :: "pyval \<Rightarrow> exn + pyval" where
  "get_class_name full_class_name =
     (case full_class_name of
        PStr s \<Rightarrow> (case py_last (py_split CHR ''.'' s) of
                     Inl e \<Rightarrow> Inl e
                   | Inr w \<Rightarrow> Inr (PStr w))
      | _ \<Rightarrow> Inl AttributeError)"

definition convert_value :: "builtins \<Rightarrow> pyval \<Rightarrow> pyval" where
  "convert_value b val =
     (case val of
        PStr s \<Rightarrow> (case int_of b s of
                     Some n \<Rightarrow> PInt n
                   | None \<Rightarrow> (case float_of b s of
                                Some f \<Rightarrow> PFloat f
                              | None \<Rightarrow> val))
      | _ \<Rightarrow> val)"

definition key_mapper :: "string \<Rightarrow> string" where
  "key_mapper orig_key =
     (case map_of [(''keyspace_name'', ''name''), (''table_name'', ''name'')] orig_key of
        Some nk \<Rightarrow> nk
      | None \<Rightarrow> orig_key)"

text \<open>
  The loop of \<^verbatim>\<open>get_replication_settings\<close> over \<^verbatim>\<open>replication.keys()\<close>, with its two
  accumulators; each value is read back by key, as the source does.
\<close>

fun replication_loop ::
  "builtins \<Rightarrow> (string \<times> pyval) list \<Rightarrow> string list \<Rightarrow> pydict \<Rightarrow> pyval list
     \<Rightarrow> exn + (pydict \<times> pyval list)" where
  "replication_loop b replication [] repl_config data_centers =
     Inr (repl_config, data_centers)"
| "replication_loop b replication (key # keys) repl_config data_centers =
     (if key = ''class'' then
        (case dict_getitem replication ''class'' of
           Inl e \<Rightarrow> Inl e
         | Inr c \<Rightarrow>
             (case get_class_name c of
                Inl e \<Rightarrow> Inl e
              | Inr n \<Rightarrow> replication_loop b replication keys
                          (AList.update ''class'' n repl_config) data_centers))
      else if key = ''replication_factor'' then
        (case dict_getitem replication ''replication_factor'' of
           Inl e \<Rightarrow> Inl e
         | Inr v \<Rightarrow> replication_loop b replication keys
                     (AList.update ''replication_factor'' (convert_value b v) repl_config)
                     data_centers)
      else
        (case dict_getitem replication key of
           Inl e \<Rightarrow> Inl e
         | Inr v \<Rightarrow> replication_loop b replication keys repl_config
                     (data_centers @
                        [PDict [(''name'', PStr key),
                                (''replication_factor'', convert_value b v)]])))"

definition get_replication_settings :: "builtins \<Rightarrow> pyval \<Rightarrow> exn + pyval" where
  "get_replication_settings b replication =
     (case replication of
        POrderedMap m \<Rightarrow>
          (case replication_loop b m (map fst m) [] [] of
             Inl e \<Rightarrow> Inl e
           | Inr (repl_config, data_centers) \<Rightarrow>
               Inr (PDict (AList.update ''data_centers'' (PList data_centers) repl_config)))
      | _ \<Rightarrow> Inr (PDict []))"

fun subconfig_loop :: "builtins \<Rightarrow> (string \<times> pyval) list \<Rightarrow> pydict \<Rightarrow> exn + pydict" where
  "subconfig_loop b [] settings = Inr settings"
| "subconfig_loop b ((key, val) # items) settings =
     (case (if key = ''class'' then get_class_name val else Inr val) of
        Inl e \<Rightarrow> Inl e
      | Inr val' \<Rightarrow> subconfig_loop b items (AList.update key (convert_value b val') settings))"

definition get_subconfig_settings :: "builtins \<Rightarrow> pyval \<Rightarrow> exn + pyval" where
  "get_subconfig_settings b subconfig =
     (case subconfig of
        POrderedMap m \<Rightarrow>
          (case subconfig_loop b m [] of
             Inl e \<Rightarrow> Inl e
           | Inr settings \<Rightarrow> Inr (PDict settings))
      | _ \<Rightarrow> Inr (PDict []))"

section \<open>The query executor\<close>

text \<open>
  The driver is outside the repository. What the code sees of it: building a
  \<^verbatim>\<open>Cluster\<close> from hosts, port and load balancing policy and connecting it to a keyspace
  either raises or yields a session; executing a statement on the session either raises
  or yields the rows, each an ordered dictionary. Both depend on the cluster's arguments.
\<close>

type_synonym cluster_args = "pyval \<times> pyval \<times> pyval"

record driver =
  connect :: "cluster_args \<Rightarrow> string \<Rightarrow> exn option"
  execute :: "cluster_args \<Rightarrow> string \<Rightarrow> exn + row list"

text \<open>
  The effects of a call: the records passed to \<^verbatim>\<open>logging.exception\<close>, the arguments of
  every \<^verbatim>\<open>Cluster\<close> built, the clusters that are connected and not shut down, and how many
  sessions were opened and shut down so far.
\<close>

record world =
  logged :: "exn list"
  clusters :: "cluster_args list"
  connected :: "cluster_args list"
  opened :: nat
  closed :: nat

text \<open>
  A successful \<^verbatim>\<open>cluster.connect(keyspace)\<close> opens the cluster's control connection and
  a session on it. \<^verbatim>\<open>Session.shutdown\<close>, which the session's \<^verbatim>\<open>__exit__\<close> calls, closes
  the session and leaves the cluster connected: only \<^verbatim>\<open>Cluster.shutdown\<close> disconnects a
  cluster, and the source never calls it, so no operation of the model removes an entry
  of \<open>connected\<close>.
\<close>

definition cluster_connected :: "cluster_args \<Rightarrow> world \<Rightarrow> world" where
  "cluster_connected args w = w\<lparr>connected := connected w @ [args], opened := Suc (opened w)\<rparr>"

definition session_shutdown :: "world \<Rightarrow> world" where
  "session_shutdown w = w\<lparr>closed := Suc (closed w)\<rparr>"

text \<open>The three arguments of \<^verbatim>\<open>Cluster(...)\<close>; the defaults are evaluated on every call.\<close>

definition cluster_args_of :: "pydict \<Rightarrow> exn + cluster_args" where
  "cluster_args_of connection =
     (case dict_getitem get_local_connection ''hosts'' of
        Inl e \<Rightarrow> Inl e
      | Inr dh \<Rightarrow>
     (case dict_getitem get_local_connection ''port'' of
        Inl e \<Rightarrow> Inl e
      | Inr dp \<Rightarrow>
     (case dict_getitem get_local_connection ''load_balancing_policy'' of
        Inl e \<Rightarrow> Inl e
      | Inr dl \<Rightarrow>
          Inr (dict_get connection ''hosts'' dh,
               dict_get connection ''port'' dp,
               dict_get connection ''load_balancing_policy'' dl))))"

text \<open>The two \<^verbatim>\<open>except\<close> clauses of \<^verbatim>\<open>exec_query\<close>, tried in the source's order.\<close>

definition on_exception :: "exn \<Rightarrow> world \<Rightarrow> (exn + row list) \<times> world" where
  "on_exception ex w =
     (if isinstance_NoHostAvailable ex then
        (Inl (Exception ''Failed to connect to Cassandra. See log for details.''),
         w\<lparr>logged := logged w @ [ex]\<rparr>)
      else if isinstance_Exception ex then
        (Inl ex, w\<lparr>logged := logged w @ [ex]\<rparr>)
      else (Inl ex, w))"

text \<open>
  The \<^verbatim>\<open>with\<close> block on the session that \<^verbatim>\<open>connect\<close> returned: the statement runs, and
  the session's \<^verbatim>\<open>__exit__\<close> shuts the session down whether the body returned or raised.
\<close>

definition with_session :: "driver \<Rightarrow> cluster_args \<Rightarrow> string \<Rightarrow> world \<Rightarrow> (exn + row list) \<times> world" where
  "with_session drv args query_stmt w =
     (let rows = execute drv args query_stmt;
          w_exited = session_shutdown w
      in (rows, w_exited))"

text \<open>The body of the \<^verbatim>\<open>try\<close>: what it returns, or the exception that leaves it.\<close>

definition try_body :: "driver \<Rightarrow> pydict \<Rightarrow> string \<Rightarrow> world \<Rightarrow> (exn + row list) \<times> world" where
  "try_body drv connection query_stmt w =
     (case cluster_args_of connection of
        Inl ex \<Rightarrow> (Inl ex, w)
      | Inr args \<Rightarrow>
          (let w_cluster = w\<lparr>clusters := clusters w @ [args]\<rparr>
           in case connect drv args ''system_schema'' of
                Some ex \<Rightarrow> (Inl ex, w_cluster)
              | None \<Rightarrow> with_session drv args query_stmt (cluster_connected args w_cluster)))"

definition exec_query :: "driver \<Rightarrow> pydict \<Rightarrow> string \<Rightarrow> world \<Rightarrow> (exn + row list) \<times> world" where
  "exec_query drv connection query_stmt w =
     (case try_body drv connection query_stmt w of
        (Inr rows, w') \<Rightarrow> (Inr rows, w')
      | (Inl ex, w') \<Rightarrow> on_exception ex w')"

section \<open>The config extractor\<close>

fun keyspace_row_loop :: "builtins \<Rightarrow> (string \<times> pyval) list \<Rightarrow> pydict \<Rightarrow> exn + pydict" where
  "keyspace_row_loop b [] ks = Inr ks"
| "keyspace_row_loop b ((k, v) # items) ks =
     (let nk = key_mapper k
      in case (if nk = ''replication'' then get_replication_settings b v else Inr v) of
           Inl e \<Rightarrow> Inl e
         | Inr v' \<Rightarrow> keyspace_row_loop b items (AList.update nk v' ks))"

fun keyspaces_loop :: "builtins \<Rightarrow> row list \<Rightarrow> pyval list \<Rightarrow> exn + pyval list" where
  "keyspaces_loop b [] keyspace_configs = Inr keyspace_configs"
| "keyspaces_loop b (row # rows) keyspace_configs =
     (case py_lower (dict_get row ''keyspace_name'' PNone) of
        Inl e \<Rightarrow> Inl e
      | Inr ks_name \<Rightarrow>
          (if ks_name = ''system'' \<or> startswith ks_name ''system_''
           then keyspaces_loop b rows keyspace_configs
           else (case keyspace_row_loop b row [] of
                   Inl e \<Rightarrow> Inl e
                 | Inr ks \<Rightarrow> keyspaces_loop b rows (keyspace_configs @ [PDict ks]))))"

definition get_keyspace_configs ::
  "builtins \<Rightarrow> driver \<Rightarrow> pydict \<Rightarrow> world \<Rightarrow> (exn + pyval) \<times> world" where
  "get_keyspace_configs b drv connection w =
     (case exec_query drv connection ''SELECT * FROM keyspaces'' w of
        (Inl e, w') \<Rightarrow> (Inl e, w')
      | (Inr rows, w') \<Rightarrow>
          (case keyspaces_loop b rows [] of
             Inl e \<Rightarrow> (Inl e, w')
           | Inr keyspace_configs \<Rightarrow>
               (Inr (PDict [(''keyspaces'', PList keyspace_configs)]), w')))"

text \<open>The branches of the inner loop of \<^verbatim>\<open>get_table_configs\<close> that rewrite a value.\<close>

definition table_value :: "builtins \<Rightarrow> string \<Rightarrow> pyval \<Rightarrow> exn + pyval" where
  "table_value b k v =
     (if is_ordered_map v then
        (if k = ''replication'' then get_replication_settings b v
         else get_subconfig_settings b v)
      else if k = ''flags'' then
        Inr (case v of PSortedSet xs \<Rightarrow> PList xs | _ \<Rightarrow> v)
      else if k = ''id'' then Inr (PStr (py_str b v))
      else Inr v)"

fun table_row_loop :: "builtins \<Rightarrow> (string \<times> pyval) list \<Rightarrow> pydict \<Rightarrow> exn + pydict" where
  "table_row_loop b [] t = Inr t"
| "table_row_loop b ((k, v) # items) t =
     (if k = ''keyspace_name'' then table_row_loop b items t
      else (case table_value b k v of
              Inl e \<Rightarrow> Inl e
            | Inr v' \<Rightarrow> table_row_loop b items (AList.update (key_mapper k) v' t)))"

fun tables_loop :: "builtins \<Rightarrow> row list \<Rightarrow> pyval list \<Rightarrow> exn + pyval list" where
  "tables_loop b [] table_configs = Inr table_configs"
| "tables_loop b (row # rows) table_configs =
     (case table_row_loop b row [] of
        Inl e \<Rightarrow> Inl e
      | Inr t \<Rightarrow> tables_loop b rows (table_configs @ [PDict t]))"

definition table_query :: "builtins \<Rightarrow> pyval \<Rightarrow> string" where
  "table_query b keyspace_name =
     ''SELECT * FROM tables WHERE keyspace_name = '' @ [CHR 0x27] @ py_str b keyspace_name
       @ [CHR 0x27] @ '';''"

definition get_table_configs ::
  "builtins \<Rightarrow> driver \<Rightarrow> pydict \<Rightarrow> pyval \<Rightarrow> world \<Rightarrow> (exn + pyval) \<times> world" where
  "get_table_configs b drv connection keyspace_name w =
     (case exec_query drv connection (table_query b keyspace_name) w of
        (Inl e, w') \<Rightarrow> (Inl e, w')
      | (Inr rows, w') \<Rightarrow>
          (case tables_loop b rows [] of
             Inl e \<Rightarrow> (Inl e, w')
           | Inr table_configs \<Rightarrow> (Inr (PList table_configs), w')))"

text \<open>
  The loop of \<^verbatim>\<open>get_current_config\<close>: each keyspace dictionary of the list is updated in
  place with its tables; \<open>done\<close> holds the elements already visited.
\<close>

fun attach_tables ::
  "builtins \<Rightarrow> driver \<Rightarrow> pydict \<Rightarrow> pyval list \<Rightarrow> pyval list \<Rightarrow> world
     \<Rightarrow> (exn + pyval list) \<times> world" where
  "attach_tables b drv connection [] done w = (Inr done, w)"
| "attach_tables b drv connection (ks # rest) done w =
     (case ks of
        PDict d \<Rightarrow>
          (case get_table_configs b drv connection (dict_get d ''name'' PNone) w of
             (Inl e, w') \<Rightarrow> (Inl e, w')
           | (Inr tables, w') \<Rightarrow>
               attach_tables b drv connection rest
                 (done @ [PDict (AList.update ''tables'' tables d)]) w')
      | _ \<Rightarrow> (Inl AttributeError, w))"

text \<open>\<^verbatim>\<open>not connection\<close>: \<^verbatim>\<open>None\<close> and the empty dictionary are falsy.\<close>

definition falsy :: "pydict option \<Rightarrow> bool" where
  "falsy connection = (case connection of None \<Rightarrow> True | Some d \<Rightarrow> d = [])"

definition get_current_config ::
  "builtins \<Rightarrow> driver \<Rightarrow> pydict option \<Rightarrow> world \<Rightarrow> (exn + pyval) \<times> world" where
  "get_current_config b drv connection w =
     (let connection' = (if falsy connection then get_local_connection else the connection)
      in case get_keyspace_configs b drv connection' w of
           (Inl e, w') \<Rightarrow> (Inl e, w')
         | (Inr keyspaces, w') \<Rightarrow>
             (case keyspaces of
                PDict kd \<Rightarrow>
                  (case dict_get kd ''keyspaces'' (PList []) of
                     PList kss \<Rightarrow>
                       (case attach_tables b drv connection' kss [] w' of
                          (Inl e, w'') \<Rightarrow> (Inl e, w'')
                        | (Inr kss', w'') \<Rightarrow>
                            (Inr (PDict (AList.update ''keyspaces'' (PList kss') kd)), w''))
                   | _ \<Rightarrow> (Inl TypeError, w'))
              | _ \<Rightarrow> (Inl AttributeError, w')))"

section \<open>Rows of the catalog\<close>

text \<open>
  What the catalog guarantees of the rows it returns. A row is a dictionary, so each
  column appears once. In \<^verbatim>\<open>system_schema\<close> the maps are maps of text, so a \<^verbatim>\<open>class\<close> entry
  is a string; \<^verbatim>\<open>keyspace_name\<close> is text; and neither table has a column called
  \<^verbatim>\<open>name\<close>, nor has \<^verbatim>\<open>keyspaces\<close> one called \<^verbatim>\<open>table_name\<close>.
\<close>

definition is_str :: "pyval \<Rightarrow> bool" where
  "is_str v = (case v of PStr s \<Rightarrow> True | _ \<Rightarrow> False)"

definition class_is_str :: "pyval \<Rightarrow> bool" where
  "class_is_str v =
     (case v of
        POrderedMap m \<Rightarrow> list_all (\<lambda>(k, c). k = ''class'' \<longrightarrow> is_str c) m
      | _ \<Rightarrow> True)"

definition keyspace_row_ok :: "row \<Rightarrow> bool" where
  "keyspace_row_ok row =
     (distinct (map fst row) \<and>
      (case map_of row ''keyspace_name'' of Some v \<Rightarrow> is_str v | None \<Rightarrow> False) \<and>
      map_of row ''name'' = None \<and>
      map_of row ''table_name'' = None \<and>
      list_all (\<lambda>(k, v). class_is_str v) row)"

definition table_row_ok :: "row \<Rightarrow> bool" where
  "table_row_ok row =
     (distinct (map fst row) \<and>
      map_of row ''name'' = None \<and>
      list_all (\<lambda>(k, v). class_is_str v) row)"

section \<open>The specification's words\<close>

text \<open>
  The class name as the specification words it: the value with everything up to and
  including the last \<^verbatim>\<open>"."\<close> removed. It is compared with \<open>get_class_name\<close> below.
\<close>

definition strip_namespace :: "string \<Rightarrow> string" where
  "strip_namespace s = rev (takeWhile (\<lambda>c. c \<noteq> CHR ''.'') (rev s))"

text \<open>
  A name the specification calls internal: lower-cased, it is \<^verbatim>\<open>system\<close> or starts with
  \<^verbatim>\<open>system_\<close>.
\<close>

definition is_system_name :: "pyval \<Rightarrow> bool" where
  "is_system_name v =
     (case py_lower v of
        Inr n \<Rightarrow> n = ''system'' \<or> startswith n ''system_''
      | Inl e \<Rightarrow> False)"

text \<open>
  A table object as the specification describes it, field by field in the row's order:
  \<^verbatim>\<open>keyspace_name\<close> is left out, \<^verbatim>\<open>table_name\<close> is called \<^verbatim>\<open>name\<close>, a map is normalized (by
  the replication normalizer under \<^verbatim>\<open>replication\<close>, by the generic one elsewhere), the set
  under \<^verbatim>\<open>flags\<close> becomes a list, \<^verbatim>\<open>id\<close> becomes its string, and everything else is kept.
\<close>

definition renamed :: "string \<Rightarrow> string" where
  "renamed k = (if k = ''table_name'' then ''name'' else k)"

definition field_as_specified :: "builtins \<Rightarrow> string \<Rightarrow> pyval \<Rightarrow> pyval \<Rightarrow> bool" where
  "field_as_specified b k v v' =
     (case v of
        POrderedMap m \<Rightarrow>
          (if k = ''replication'' then get_replication_settings b v = Inr v'
           else get_subconfig_settings b v = Inr v')
      | PSortedSet xs \<Rightarrow>
          (if k = ''flags'' then v' = PList xs
           else if k = ''id'' then v' = PStr (py_str b v)
           else v' = v)
      | _ \<Rightarrow> (if k = ''id'' then v' = PStr (py_str b v) else v' = v))"

definition table_as_specified :: "builtins \<Rightarrow> row \<Rightarrow> pydict \<Rightarrow> bool" where
  "table_as_specified b row t =
     list_all2 (\<lambda>(k, v) (k', v'). k' = renamed k \<and> field_as_specified b k v v')
       (filter (\<lambda>(k, v). k \<noteq> ''keyspace_name'') row) t"

section \<open>Sample environment\<close>

text \<open>
  An excerpt of the builtins for the worked examples: \<^verbatim>\<open>int("1") == 1\<close>,
  \<^verbatim>\<open>float("2.0") == 2.0\<close> (bit pattern \<^verbatim>\<open>0x4000000000000000\<close>), \<^verbatim>\<open>int("2.0")\<close> raises
  \<^verbatim>\<open>ValueError\<close>, \<^verbatim>\<open>str(None) == "None"\<close>, and the nil UUID prints as zeros. The
  examples never leave the excerpt.
\<close>

definition sample_builtins :: builtins where
  "sample_builtins =
     \<lparr>int_of = map_of [(''1'', 1), (''2'', 2), (''3'', 3)],
      float_of = map_of [(''1'', 0x3FF0000000000000), (''2'', 0x4000000000000000),
                         (''3'', 0x4008000000000000), (''2.0'', 0x4000000000000000)],
      str_of = (\<lambda>v. case v of
                       PNone \<Rightarrow> ''None''
                     | PUUID u \<Rightarrow> (if u = 0 then ''00000000-0000-0000-0000-000000000000'' else [])
                     | _ \<Rightarrow> [])\<rparr>"

text \<open>
  A cluster with three keyspaces, two of them internal, and one table; a cluster no host
  of which answers; and a cluster that connects and then rejects every statement.
\<close>

definition sample_keyspace_rows :: "row list" where
  "sample_keyspace_rows =
     [[(''keyspace_name'', PStr ''system_auth''),
       (''durable_writes'', PBool True),
       (''replication'', POrderedMap
          [(''class'', PStr ''org.apache.cassandra.locator.SimpleStrategy''),
           (''replication_factor'', PStr ''1'')])],
      [(''keyspace_name'', PStr ''System''),
       (''durable_writes'', PBool True),
       (''replication'', POrderedMap
          [(''class'', PStr ''org.apache.cassandra.locator.LocalStrategy'')])],
      [(''keyspace_name'', PStr ''My_App''),
       (''durable_writes'', PBool True),
       (''replication'', POrderedMap
          [(''class'', PStr ''org.apache.cassandra.locator.NetworkTopologyStrategy''),
           (''dc1'', PStr ''2''),
           (''dc2'', PStr ''3'')])]]"

definition sample_table_rows :: "row list" where
  "sample_table_rows =
     [[(''keyspace_name'', PStr ''My_App''),
       (''table_name'', PStr ''users''),
       (''caching'', POrderedMap [(''keys'', PStr ''ALL''), (''rows_per_partition'', PStr ''1'')]),
       (''compaction'', POrderedMap
          [(''class'', PStr ''org.apache.cassandra.db.compaction.SizeTieredCompactionStrategy''),
           (''max_threshold'', PStr ''3'')]),
       (''flags'', PSortedSet [PStr ''compound'']),
       (''gc_grace_seconds'', PInt 864000),
       (''id'', PUUID 0)]]"

definition sample_driver :: driver where
  "sample_driver =
     \<lparr>connect = (\<lambda>args keyspace. None),
      execute = (\<lambda>args stmt.
         if stmt = ''SELECT * FROM keyspaces'' then Inr sample_keyspace_rows
         else if stmt = table_query sample_builtins (PStr ''My_App'') then Inr sample_table_rows
         else Inr [])\<rparr>"

definition unreachable_driver :: driver where
  "unreachable_driver =
     \<lparr>connect = (\<lambda>args keyspace. Some (NoHostAvailable ''Unable to connect to any servers'')),
      execute = (\<lambda>args stmt. Inr [])\<rparr>"

definition rejecting_driver :: driver where
  "rejecting_driver =
     \<lparr>connect = (\<lambda>args keyspace. None),
      execute = (\<lambda>args stmt. Inl (DriverError ''InvalidRequest''))\<rparr>"

definition fresh_world :: world where
  "fresh_world = \<lparr>logged = [], clusters = [], connected = [], opened = 0, closed = 0\<rparr>"

section \<open>Facts about the sample environment\<close>

lemma sample_int_of [simp]:
  "int_of sample_builtins = map_of [(''1'', 1), (''2'', 2), (''3'', 3)]"
  by (simp add: sample_builtins_def)

lemma sample_float_of [simp]:
  "float_of sample_builtins =
     map_of [(''1'', 0x3FF0000000000000), (''2'', 0x4000000000000000),
             (''3'', 0x4008000000000000), (''2.0'', 0x4000000000000000)]"
  by (simp add: sample_builtins_def)

section \<open>Value coercion\<close>

text \<open>
  Claim C2. For every string that \<^verbatim>\<open>int\<close> parses, \<open>convert_value\<close> returns that integer;
  for every string that \<^verbatim>\<open>float\<close> parses and \<^verbatim>\<open>int\<close> does not, it returns that float; every
  other string comes back unchanged; and so does every value that is not a string.
\<close>

theorem convert_value_cases:
  "(int_of b s = Some n \<longrightarrow> convert_value b (PStr s) = PInt n) \<and>
   (int_of b s = None \<and> float_of b s = Some f \<longrightarrow> convert_value b (PStr s) = PFloat f) \<and>
   (int_of b s = None \<and> float_of b s = None \<longrightarrow> convert_value b (PStr s) = PStr s) \<and>
   ((\<forall>t. v \<noteq> PStr t) \<longrightarrow> convert_value b v = v)"
  by (cases v) (simp_all add: convert_value_def)

text \<open>The four cases of the repository's own test: \<^verbatim>\<open>"1"\<close>, \<^verbatim>\<open>"2.0"\<close>, \<^verbatim>\<open>"test"\<close>, \<^verbatim>\<open>[1, 2]\<close>.\<close>

theorem convert_value_cases_witness:
  "convert_value sample_builtins (PStr ''1'') = PInt 1 \<and>
   convert_value sample_builtins (PStr ''2.0'') = PFloat 0x4000000000000000 \<and>
   convert_value sample_builtins (PStr ''test'') = PStr ''test'' \<and>
   convert_value sample_builtins (PList [PInt 1, PInt 2]) = PList [PInt 1, PInt 2]"
proof -
  have i: "int_of sample_builtins ''1'' = Some 1" by simp
  have f: "int_of sample_builtins ''2.0'' = None \<and>
           float_of sample_builtins ''2.0'' = Some 0x4000000000000000" by simp
  have t: "int_of sample_builtins ''test'' = None \<and> float_of sample_builtins ''test'' = None"
    by simp
  have l: "\<forall>t. PList [PInt 1, PInt 2] \<noteq> PStr t" by simp
  from convert_value_cases [of sample_builtins "''1''" 1] i
  have 1: "convert_value sample_builtins (PStr ''1'') = PInt 1" by blast
  from convert_value_cases [of sample_builtins "''2.0''" _ "0x4000000000000000"] f
  have 2: "convert_value sample_builtins (PStr ''2.0'') = PFloat 0x4000000000000000" by blast
  from convert_value_cases [of sample_builtins "''test''"] t
  have 3: "convert_value sample_builtins (PStr ''test'') = PStr ''test''" by blast
  from convert_value_cases [of sample_builtins _ _ _ "PList [PInt 1, PInt 2]"] l
  have 4: "convert_value sample_builtins (PList [PInt 1, PInt 2]) = PList [PInt 1, PInt 2]"
    by blast
  from 1 2 3 4 show ?thesis by blast
qed

section \<open>Inputs that are not catalog maps\<close>

text \<open>
  Claim C7. On every input that is not an \<^verbatim>\<open>OrderedMapSerializedKey\<close>, both
  \<open>get_replication_settings\<close> and \<open>get_subconfig_settings\<close> return the empty dictionary;
  neither raises.
\<close>

theorem non_map_gives_empty:
  "\<not> is_ordered_map v \<Longrightarrow>
     get_replication_settings b v = Inr (PDict []) \<and>
     get_subconfig_settings b v = Inr (PDict [])"
  by (cases v)
    (simp_all add: is_ordered_map_def get_replication_settings_def get_subconfig_settings_def)

text \<open>A plain \<^verbatim>\<open>dict\<close> is not the recognized map type, whatever it holds.\<close>

theorem non_map_gives_empty_witness:
  "\<not> is_ordered_map (PDict [(''class'', PStr ''a.B'')]) \<and>
   get_replication_settings sample_builtins (PDict [(''class'', PStr ''a.B'')]) = Inr (PDict []) \<and>
   get_subconfig_settings sample_builtins (PDict [(''class'', PStr ''a.B'')]) = Inr (PDict [])"
proof -
  have h: "\<not> is_ordered_map (PDict [(''class'', PStr ''a.B'')])"
    by (simp add: is_ordered_map_def)
  from non_map_gives_empty [OF h, of sample_builtins] h show ?thesis by simp
qed

section \<open>Default connection parameters\<close>

text \<open>
  Claim C5, as stated: the default connection parameters hold the hosts and the port and
  nothing else. They hold a third entry, the load balancing policy.
\<close>

theorem default_connection_has_policy:
  "map_of get_default_connection ''load_balancing_policy'' = Some PRoundRobinPolicy \<and>
   \<not> set (map fst get_default_connection)
        \<subseteq> {''host'', ''hosts'', ''port'', ''auth_provider'', ''ssl_context''}"
  by (simp add: get_default_connection_def get_local_connection_def)

text \<open>
  Claim C5, amended. The default connection parameters are exactly: hosts
  \<^verbatim>\<open>["localhost"]\<close>, port 9042 and a round-robin load balancing policy; there is no
  authentication provider and no TLS context.
\<close>

theorem default_connection_value:
  "get_default_connection =
     [(''hosts'', PList [PStr ''localhost'']), (''port'', PInt 9042),
      (''load_balancing_policy'', PRoundRobinPolicy)] \<and>
   map_of get_default_connection ''auth_provider'' = None \<and>
   map_of get_default_connection ''ssl_context'' = None"
  by (simp add: get_default_connection_def get_local_connection_def DEFAULT_PORT_def)

section \<open>The query executor's exits\<close>

lemma cluster_args_of_eq:
  "cluster_args_of d =
     Inr (case map_of d ''hosts'' of None \<Rightarrow> PList [PStr ''localhost''] | Some h \<Rightarrow> h,
          case map_of d ''port'' of None \<Rightarrow> PInt 9042 | Some p \<Rightarrow> p,
          case map_of d ''load_balancing_policy'' of None \<Rightarrow> PRoundRobinPolicy | Some l \<Rightarrow> l)"
  by (simp add: cluster_args_of_def dict_getitem_def dict_get_def get_local_connection_def
      DEFAULT_PORT_def split: option.splits)

lemma try_body_cases:
  assumes "cluster_args_of connection = Inr args"
  shows "try_body drv connection q w =
     (case connect drv args ''system_schema'' of
        Some ex \<Rightarrow> (Inl ex, w\<lparr>clusters := clusters w @ [args]\<rparr>)
      | None \<Rightarrow> (execute drv args q,
                 w\<lparr>clusters := clusters w @ [args], connected := connected w @ [args],
                   opened := Suc (opened w), closed := Suc (closed w)\<rparr>))"
  using assms
  by (simp add: try_body_def with_session_def cluster_connected_def session_shutdown_def Let_def
      split: option.splits)

lemma exec_query_clusters:
  assumes "cluster_args_of connection = Inr args"
  shows "clusters (snd (exec_query drv connection q w)) = clusters w @ [args]"
proof (cases "connect drv args ''system_schema''")
  case None
  then show ?thesis
    by (cases "execute drv args q")
      (simp_all add: exec_query_def try_body_cases [OF assms] on_exception_def)
next
  case (Some ex)
  then show ?thesis
    by (simp add: exec_query_def try_body_cases [OF assms] on_exception_def)
qed

text \<open>
  Claim C6. Let \<open>ex\<close> be the exception that leaves the \<^verbatim>\<open>try\<close> block of \<open>exec_query\<close>,
  raised by connecting or by executing the statement. If it is a \<^verbatim>\<open>NoHostAvailable\<close>,
  the call logs it and raises an \<^verbatim>\<open>Exception\<close> with a fixed message, the same whatever
  the diagnostic. If it is any other error (an instance of \<^verbatim>\<open>Exception\<close>), the call logs
  it and raises that very exception. Either way one record is logged and one cluster
  was built: nothing is retried.
\<close>

theorem exec_query_error_handling:
  assumes "cluster_args_of connection = Inr args"
    and "connect drv args ''system_schema'' = Some ex \<or>
         (connect drv args ''system_schema'' = None \<and> execute drv args q = Inl ex)"
  shows "((\<exists>d. ex = NoHostAvailable d) \<longrightarrow>
            fst (exec_query drv connection q w) =
              Inl (Exception ''Failed to connect to Cassandra. See log for details.'') \<and>
            logged (snd (exec_query drv connection q w)) = logged w @ [ex]) \<and>
         ((\<forall>d. ex \<noteq> NoHostAvailable d) \<and> isinstance_Exception ex \<longrightarrow>
            fst (exec_query drv connection q w) = Inl ex \<and>
            logged (snd (exec_query drv connection q w)) = logged w @ [ex]) \<and>
         clusters (snd (exec_query drv connection q w)) = clusters w @ [args]"
proof -
  from assms(2) have
    "((\<exists>d. ex = NoHostAvailable d) \<longrightarrow>
            fst (exec_query drv connection q w) =
              Inl (Exception ''Failed to connect to Cassandra. See log for details.'') \<and>
            logged (snd (exec_query drv connection q w)) = logged w @ [ex]) \<and>
         ((\<forall>d. ex \<noteq> NoHostAvailable d) \<and> isinstance_Exception ex \<longrightarrow>
            fst (exec_query drv connection q w) = Inl ex \<and>
            logged (snd (exec_query drv connection q w)) = logged w @ [ex])"
    by (cases ex)
      (auto simp add: exec_query_def try_body_cases [OF assms(1)] on_exception_def
        isinstance_NoHostAvailable_def isinstance_Exception_def)
  with exec_query_clusters [OF assms(1)] show ?thesis by simp
qed

text \<open>No host answers; and a host answers and rejects the statement.\<close>

theorem exec_query_error_handling_witness:
  "fst (exec_query unreachable_driver get_local_connection ''SELECT * FROM keyspaces'' fresh_world)
     = Inl (Exception ''Failed to connect to Cassandra. See log for details.'') \<and>
   logged (snd (exec_query unreachable_driver get_local_connection ''SELECT * FROM keyspaces''
      fresh_world)) = [NoHostAvailable ''Unable to connect to any servers''] \<and>
   fst (exec_query rejecting_driver get_local_connection ''SELECT * FROM keyspaces'' fresh_world)
     = Inl (DriverError ''InvalidRequest'') \<and>
   logged (snd (exec_query rejecting_driver get_local_connection ''SELECT * FROM keyspaces''
      fresh_world)) = [DriverError ''InvalidRequest'']"
proof -
  let ?args = "(PList [PStr ''localhost''], PInt 9042, PRoundRobinPolicy)"
  have a: "cluster_args_of get_local_connection = Inr ?args"
    by (simp add: cluster_args_of_eq get_local_connection_def DEFAULT_PORT_def)
  have u: "connect unreachable_driver ?args ''system_schema''
             = Some (NoHostAvailable ''Unable to connect to any servers'') \<or>
           (connect unreachable_driver ?args ''system_schema'' = None \<and>
            execute unreachable_driver ?args ''SELECT * FROM keyspaces''
              = Inl (NoHostAvailable ''Unable to connect to any servers''))"
    by (simp add: unreachable_driver_def)
  have r: "connect rejecting_driver ?args ''system_schema'' = Some (DriverError ''InvalidRequest'') \<or>
           (connect rejecting_driver ?args ''system_schema'' = None \<and>
            execute rejecting_driver ?args ''SELECT * FROM keyspaces''
              = Inl (DriverError ''InvalidRequest''))"
    by (simp add: rejecting_driver_def)
  from exec_query_error_handling [OF a u, of fresh_world]
       exec_query_error_handling [OF a r, of fresh_world]
  show ?thesis by (simp add: fresh_world_def isinstance_Exception_def)
qed

text \<open>
  What a call of \<open>exec_query\<close> leaves behind. If connecting fails, nothing was opened. If
  it succeeds, one session was opened and that session is shut down when the call
  returns or raises, but the cluster the call connected stays connected.
\<close>

lemma exec_query_resources:
  assumes "cluster_args_of connection = Inr args"
  shows "(connect drv args ''system_schema'' = None \<longrightarrow>
            opened (snd (exec_query drv connection q w)) = Suc (opened w) \<and>
            closed (snd (exec_query drv connection q w)) = Suc (closed w) \<and>
            connected (snd (exec_query drv connection q w)) = connected w @ [args]) \<and>
         (connect drv args ''system_schema'' \<noteq> None \<longrightarrow>
            opened (snd (exec_query drv connection q w)) = opened w \<and>
            closed (snd (exec_query drv connection q w)) = closed w \<and>
            connected (snd (exec_query drv connection q w)) = connected w)"
proof (cases "connect drv args ''system_schema''")
  case None
  then show ?thesis
    by (cases "execute drv args q")
      (simp_all add: exec_query_def try_body_cases [OF assms] on_exception_def)
next
  case (Some ex)
  then show ?thesis
    by (simp add: exec_query_def try_body_cases [OF assms] on_exception_def)
qed

text \<open>
  Claim C9, at a failing input: the local connection parameters, the keyspace query and
  a cluster that answers. The call returns the rows; the one session it opened is shut
  down; the cluster it built and connected is still connected, its control connection
  open, when control is back with the caller.
\<close>

theorem exec_query_leaves_cluster_connected:
  "fst (exec_query sample_driver get_local_connection ''SELECT * FROM keyspaces'' fresh_world) =
     Inr sample_keyspace_rows \<and>
   opened (snd (exec_query sample_driver get_local_connection ''SELECT * FROM keyspaces''
      fresh_world)) = 1 \<and>
   closed (snd (exec_query sample_driver get_local_connection ''SELECT * FROM keyspaces''
      fresh_world)) = 1 \<and>
   connected (snd (exec_query sample_driver get_local_connection ''SELECT * FROM keyspaces''
      fresh_world)) = [(PList [PStr ''localhost''], PInt 9042, PRoundRobinPolicy)]"
  by (simp add: exec_query_def try_body_cases [OF cluster_args_of_eq] sample_driver_def
      fresh_world_def get_local_connection_def DEFAULT_PORT_def)

section \<open>Missing connection parameters\<close>

text \<open>
  Which clusters a call builds: one for each query, all with the arguments that the
  connection dictionary in use yields.
\<close>

lemma get_keyspace_configs_clusters:
  assumes "cluster_args_of c = Inr args"
  shows "clusters (snd (get_keyspace_configs b drv c w)) = clusters w @ [args]"
proof -
  obtain r w' where q: "exec_query drv c ''SELECT * FROM keyspaces'' w = (r, w')"
    by (cases "exec_query drv c ''SELECT * FROM keyspaces'' w")
  with exec_query_clusters [OF assms, of drv "''SELECT * FROM keyspaces''" w]
  have "clusters w' = clusters w @ [args]" by simp
  with q show ?thesis
    by (simp add: get_keyspace_configs_def split: sum.splits)
qed

lemma get_table_configs_clusters:
  assumes "cluster_args_of c = Inr args"
  shows "clusters (snd (get_table_configs b drv c n w)) = clusters w @ [args]"
proof -
  obtain r w' where q: "exec_query drv c (table_query b n) w = (r, w')"
    by (cases "exec_query drv c (table_query b n) w")
  with exec_query_clusters [OF assms, of drv "table_query b n" w]
  have "clusters w' = clusters w @ [args]" by simp
  with q show ?thesis
    by (simp add: get_table_configs_def split: sum.splits)
qed

lemma attach_tables_clusters:
  assumes "cluster_args_of c = Inr args"
  shows "\<exists>n. clusters (snd (attach_tables b drv c kss done w)) = clusters w @ replicate n args"
proof (induction kss arbitrary: "done" w)
  case Nil
  have "clusters (snd (attach_tables b drv c [] done w)) = clusters w @ replicate 0 args"
    by simp
  then show ?case by (rule exI)
next
  case (Cons ks kss)
  show ?case
  proof (cases "\<exists>d. ks = PDict d")
    case False
    then have "clusters (snd (attach_tables b drv c (ks # kss) done w)) =
                 clusters w @ replicate 0 args"
      by (cases ks) simp_all
    then show ?thesis by (rule exI)
  next
    case True
    then obtain d where d: "ks = PDict d" ..
    obtain r w1 where t: "get_table_configs b drv c (dict_get d ''name'' PNone) w = (r, w1)"
      by (cases "get_table_configs b drv c (dict_get d ''name'' PNone) w")
    with get_table_configs_clusters [OF assms, of b drv "dict_get d ''name'' PNone" w]
    have w1: "clusters w1 = clusters w @ [args]" by simp
    show ?thesis
    proof (cases r)
      case (Inl e)
      with d t w1 have "clusters (snd (attach_tables b drv c (ks # kss) done w)) =
                 clusters w @ replicate 1 args" by simp
      then show ?thesis by (rule exI)
    next
      case (Inr tables)
      from Cons.IH [of "done @ [PDict (AList.update ''tables'' tables d)]" w1]
      obtain n where "clusters (snd (attach_tables b drv c kss
          (done @ [PDict (AList.update ''tables'' tables d)]) w1)) = clusters w1 @ replicate n args" ..
      with Inr d t w1 have "clusters (snd (attach_tables b drv c (ks # kss) done w)) =
                 clusters w @ replicate (Suc n) args" by simp
      then show ?thesis by (rule exI)
    qed
  qed
qed

lemma get_current_config_clusters:
  assumes "cluster_args_of (if falsy c then get_local_connection else the c) = Inr args"
  shows "\<exists>n. clusters (snd (get_current_config b drv c w)) = clusters w @ replicate (Suc n) args"
proof -
  define c' where "c' = (if falsy c then get_local_connection else the c)"
  with assms have a: "cluster_args_of c' = Inr args" by simp
  have u: "get_current_config b drv c w =
            (case get_keyspace_configs b drv c' w of
               (Inl e, w') \<Rightarrow> (Inl e, w')
             | (Inr keyspaces, w') \<Rightarrow>
                 (case keyspaces of
                    PDict kd \<Rightarrow>
                      (case dict_get kd ''keyspaces'' (PList []) of
                         PList kss \<Rightarrow>
                           (case attach_tables b drv c' kss [] w' of
                              (Inl e, w'') \<Rightarrow> (Inl e, w'')
                            | (Inr kss', w'') \<Rightarrow>
                                (Inr (PDict (AList.update ''keyspaces'' (PList kss') kd)), w''))
                       | _ \<Rightarrow> (Inl TypeError, w'))
                  | _ \<Rightarrow> (Inl AttributeError, w')))"
    unfolding get_current_config_def c'_def Let_def ..
  obtain r w1 where k: "get_keyspace_configs b drv c' w = (r, w1)"
    by (cases "get_keyspace_configs b drv c' w")
  with get_keyspace_configs_clusters [OF a, of b drv w]
  have w1: "clusters w1 = clusters w @ [args]" by simp
  have zero: "clusters w1 = clusters w @ replicate (Suc 0) args" using w1 by simp
  show ?thesis
  proof (cases r)
    case (Inl e)
    with u k have "snd (get_current_config b drv c w) = w1" by simp
    with zero have "clusters (snd (get_current_config b drv c w)) =
                      clusters w @ replicate (Suc 0) args" by simp
    then show ?thesis by (rule exI)
  next
    case (Inr keyspaces)
    show ?thesis
    proof (cases "\<exists>kd kss. keyspaces = PDict kd \<and> dict_get kd ''keyspaces'' (PList []) = PList kss")
      case False
      with u k Inr have "snd (get_current_config b drv c w) = w1"
        by (cases keyspaces) (auto split: pyval.splits)
      with zero have "clusters (snd (get_current_config b drv c w)) =
                      clusters w @ replicate (Suc 0) args" by simp
      then show ?thesis by (rule exI)
    next
      case True
      then obtain kd kss where kd: "keyspaces = PDict kd"
        and kss: "dict_get kd ''keyspaces'' (PList []) = PList kss" by blast
      from attach_tables_clusters [OF a, of b drv kss "[]" w1]
      obtain n where n: "clusters (snd (attach_tables b drv c' kss [] w1)) =
                           clusters w1 @ replicate n args" ..
      obtain r2 w2 where t: "attach_tables b drv c' kss [] w1 = (r2, w2)"
        by (cases "attach_tables b drv c' kss [] w1")
      with u k Inr kd kss have "snd (get_current_config b drv c w) = w2"
        by (cases r2) simp_all
      with n t w1 have "clusters (snd (get_current_config b drv c w)) =
                      clusters w @ replicate (Suc n) args" by simp
      then show ?thesis by (rule exI)
    qed
  qed
qed

text \<open>
  Claim C10. With no connection or an empty one, \<open>get_current_config\<close> runs on the local
  parameters: it does what it does on them, and every cluster it builds, at least one,
  has hosts \<^verbatim>\<open>["localhost"]\<close>, port 9042 and the round-robin policy. For every connection
  dictionary, \<open>exec_query\<close> builds its cluster without an error, and each of hosts, port
  and load balancing policy is the dictionary's own entry when it has one and the local
  default when not.
\<close>

theorem missing_parameters_default:
  "(falsy c \<longrightarrow>
      get_current_config b drv c w = get_current_config b drv (Some get_local_connection) w \<and>
      (\<exists>n. clusters (snd (get_current_config b drv c w)) =
             clusters w @
               replicate (Suc n) (PList [PStr ''localhost''], PInt 9042, PRoundRobinPolicy))) \<and>
   cluster_args_of d =
     Inr (case map_of d ''hosts'' of None \<Rightarrow> PList [PStr ''localhost''] | Some h \<Rightarrow> h,
          case map_of d ''port'' of None \<Rightarrow> PInt 9042 | Some p \<Rightarrow> p,
          case map_of d ''load_balancing_policy'' of None \<Rightarrow> PRoundRobinPolicy | Some l \<Rightarrow> l) \<and>
   clusters (snd (exec_query drv d q w)) =
     clusters w @
       [(case map_of d ''hosts'' of None \<Rightarrow> PList [PStr ''localhost''] | Some h \<Rightarrow> h,
         case map_of d ''port'' of None \<Rightarrow> PInt 9042 | Some p \<Rightarrow> p,
         case map_of d ''load_balancing_policy'' of None \<Rightarrow> PRoundRobinPolicy | Some l \<Rightarrow> l)]"
proof -
  have "\<not> falsy (Some get_local_connection)"
    by (simp add: falsy_def get_local_connection_def)
  then have 1: "falsy c \<longrightarrow>
      get_current_config b drv c w = get_current_config b drv (Some get_local_connection) w"
    by (simp add: get_current_config_def)
  have 2: "falsy c \<longrightarrow>
      (\<exists>n. clusters (snd (get_current_config b drv c w)) =
             clusters w @
               replicate (Suc n) (PList [PStr ''localhost''], PInt 9042, PRoundRobinPolicy))"
  proof
    assume "falsy c"
    then have "cluster_args_of (if falsy c then get_local_connection else the c) =
                 Inr (PList [PStr ''localhost''], PInt 9042, PRoundRobinPolicy)"
      by (simp add: cluster_args_of_eq get_local_connection_def DEFAULT_PORT_def)
    then show "\<exists>n. clusters (snd (get_current_config b drv c w)) =
             clusters w @
               replicate (Suc n) (PList [PStr ''localhost''], PInt 9042, PRoundRobinPolicy)"
      by (rule get_current_config_clusters)
  qed
  from 1 2 cluster_args_of_eq [of d] exec_query_clusters [OF cluster_args_of_eq, of drv d q w]
  show ?thesis by simp
qed

text \<open>
  No connection, the empty connection, and a connection that names a port only. On the
  sample cluster the call without a connection builds two clusters, one for the keyspaces
  and one for the tables of the keyspace listed, both on the local parameters.
\<close>

theorem missing_parameters_default_witness:
  "falsy None \<and> falsy (Some []) \<and>
   get_current_config sample_builtins sample_driver None fresh_world
     = get_current_config sample_builtins sample_driver (Some get_local_connection) fresh_world \<and>
   get_current_config sample_builtins sample_driver (Some []) fresh_world
     = get_current_config sample_builtins sample_driver (Some get_local_connection) fresh_world \<and>
   (\<exists>n. clusters (snd (get_current_config sample_builtins sample_driver None fresh_world)) =
          replicate (Suc n) (PList [PStr ''localhost''], PInt 9042, PRoundRobinPolicy)) \<and>
   clusters (snd (get_current_config sample_builtins sample_driver None fresh_world)) =
     [(PList [PStr ''localhost''], PInt 9042, PRoundRobinPolicy),
      (PList [PStr ''localhost''], PInt 9042, PRoundRobinPolicy)] \<and>
   clusters (snd (exec_query sample_driver [(''port'', PInt 9043)] ''SELECT * FROM keyspaces''
      fresh_world)) = [(PList [PStr ''localhost''], PInt 9043, PRoundRobinPolicy)]"
proof -
  let ?local = "(PList [PStr ''localhost''], PInt 9042, PRoundRobinPolicy)"
  have n: "falsy None" and e: "falsy (Some [])" by (simp_all add: falsy_def)
  have v: "clusters (snd (get_current_config sample_builtins sample_driver None fresh_world)) =
     [?local, ?local]"
    by code_simp
  have f: "clusters fresh_world = []" by (simp add: fresh_world_def)
  note none = missing_parameters_default [of None sample_builtins sample_driver fresh_world
      "[(''port'', PInt 9043)]" "''SELECT * FROM keyspaces''"]
  note empty = missing_parameters_default [of "Some []" sample_builtins sample_driver
      fresh_world "[]" "[]"]
  note none_falsy = none [THEN conjunct1, THEN mp, OF n]
  note empty_falsy = empty [THEN conjunct1, THEN mp, OF e]
  have 1:
    "get_current_config sample_builtins sample_driver None fresh_world
       = get_current_config sample_builtins sample_driver (Some get_local_connection) fresh_world"
    by (rule none_falsy [THEN conjunct1])
  have 2:
    "get_current_config sample_builtins sample_driver (Some []) fresh_world
       = get_current_config sample_builtins sample_driver (Some get_local_connection) fresh_world"
    by (rule empty_falsy [THEN conjunct1])
  have 3:
    "\<exists>n. clusters (snd (get_current_config sample_builtins sample_driver None fresh_world)) =
          replicate (Suc n) ?local"
    using none_falsy [THEN conjunct2] unfolding f append_Nil .
  from none [THEN conjunct2, THEN conjunct2] have 4:
    "clusters (snd (exec_query sample_driver [(''port'', PInt 9043)] ''SELECT * FROM keyspaces''
       fresh_world)) = [(PList [PStr ''localhost''], PInt 9043, PRoundRobinPolicy)]"
    by (simp add: f)
  show ?thesis
    by (intro conjI n e 1 2 3 v 4)
qed

section \<open>The replication normalizer\<close>

lemma py_split_not_Nil: "py_split sep s \<noteq> []"
  by (induction s) (auto split: list.splits)

lemma py_split_no_sep: "sep \<notin> set s \<Longrightarrow> py_split sep s = [s]"
  by (induction s) auto

lemma py_split_sep: "sep \<in> set s \<Longrightarrow> \<exists>w w' ws. py_split sep s = w # w' # ws"
proof (induction s)
  case Nil
  then show ?case by simp
next
  case (Cons c cs)
  show ?case
  proof (cases "c = sep")
    case True
    then show ?thesis
      using py_split_not_Nil [of sep cs] by (cases "py_split sep cs") auto
  next
    case False
    with Cons obtain w w' ws where "py_split sep cs = w # w' # ws" by auto
    with False show ?thesis by simp
  qed
qed

lemma takeWhile_rev_all: "sep \<notin> set s \<Longrightarrow> takeWhile (\<lambda>c. c \<noteq> sep) (rev s) = rev s"
  by (auto simp add: takeWhile_eq_all_conv)

lemma takeWhile_rev_snoc:
  "sep \<in> set s \<Longrightarrow>
     takeWhile (\<lambda>c. c \<noteq> sep) (rev s @ [c]) = takeWhile (\<lambda>c. c \<noteq> sep) (rev s)"
  by (rule takeWhile_append1 [of sep]) simp_all

lemma last_py_split: "last (py_split sep s) = rev (takeWhile (\<lambda>c. c \<noteq> sep) (rev s))"
proof (cases "sep \<in> set s")
  case False
  then show ?thesis by (simp add: py_split_no_sep takeWhile_rev_all)
next
  case True
  then show ?thesis
  proof (induction s)
    case Nil
    then show ?case by simp
  next
    case (Cons c cs)
    show ?case
    proof (cases "sep \<in> set cs")
      case True
      then obtain w w' ws where ws: "py_split sep cs = w # w' # ws"
        using py_split_sep by blast
      from True Cons.IH have "last (py_split sep cs) = rev (takeWhile (\<lambda>c. c \<noteq> sep) (rev cs))"
        by simp
      with ws True show ?thesis by (simp add: takeWhile_rev_snoc)
    next
      case False
      with Cons.prems have c: "c = sep" by simp
      from False have "py_split sep cs = [cs]" by (rule py_split_no_sep)
      with c False show ?thesis by (simp add: takeWhile_append takeWhile_rev_all)
    qed
  qed
qed

lemma py_last_eq: "xs \<noteq> [] \<Longrightarrow> py_last xs = Inr (last xs)"
  by (cases xs rule: rev_cases) (simp_all add: py_last_def)

lemma get_class_name_str: "get_class_name (PStr s) = Inr (PStr (strip_namespace s))"
  by (simp add: get_class_name_def py_last_eq py_split_not_Nil last_py_split strip_namespace_def)

lemma replication_loop_result:
  assumes "\<forall>k\<in>set ks. \<exists>v. map_of m k = Some v"
    and "''class'' \<in> set ks \<longrightarrow> map_of m ''class'' = Some (PStr s)"
  shows "\<exists>rc'. replication_loop b m ks rc dcs =
           Inr (rc', dcs @ map (\<lambda>k. PDict [(''name'', PStr k),
                                  (''replication_factor'', convert_value b (the (map_of m k)))])
                          (filter (\<lambda>k. k \<noteq> ''class'' \<and> k \<noteq> ''replication_factor'') ks)) \<and>
         map_of rc' =
           (\<lambda>k. if k = ''class'' \<and> ''class'' \<in> set ks then Some (PStr (strip_namespace s))
                else if k = ''replication_factor'' \<and> ''replication_factor'' \<in> set ks
                then Some (convert_value b (the (map_of m ''replication_factor'')))
                else map_of rc k)"
  using assms
proof (induction ks arbitrary: rc dcs)
  case Nil
  then show ?case by simp
next
  case (Cons key keys)
  from Cons.prems obtain v where v: "map_of m key = Some v" by auto
  from Cons.prems have p1: "\<forall>k\<in>set keys. \<exists>v. map_of m k = Some v" by simp
  show ?case
  proof (cases "key = ''class''")
    case True
    with Cons.prems have c: "map_of m ''class'' = Some (PStr s)" by simp
    then have p2: "''class'' \<in> set keys \<longrightarrow> map_of m ''class'' = Some (PStr s)" by simp
    from Cons.IH [OF p1 p2, of "AList.update ''class'' (PStr (strip_namespace s)) rc" dcs]
    obtain rc' where r: "replication_loop b m keys
        (AList.update ''class'' (PStr (strip_namespace s)) rc) dcs =
           Inr (rc', dcs @ map (\<lambda>k. PDict [(''name'', PStr k),
                                  (''replication_factor'', convert_value b (the (map_of m k)))])
                          (filter (\<lambda>k. k \<noteq> ''class'' \<and> k \<noteq> ''replication_factor'') keys))"
      and m: "map_of rc' =
           (\<lambda>k. if k = ''class'' \<and> ''class'' \<in> set keys then Some (PStr (strip_namespace s))
                else if k = ''replication_factor'' \<and> ''replication_factor'' \<in> set keys
                then Some (convert_value b (the (map_of m ''replication_factor'')))
                else map_of (AList.update ''class'' (PStr (strip_namespace s)) rc) k)"
      by blast
    from True c r have "replication_loop b m (key # keys) rc dcs =
           Inr (rc', dcs @ map (\<lambda>k. PDict [(''name'', PStr k),
                                  (''replication_factor'', convert_value b (the (map_of m k)))])
                          (filter (\<lambda>k. k \<noteq> ''class'' \<and> k \<noteq> ''replication_factor'') (key # keys)))"
      by (simp add: dict_getitem_def get_class_name_str)
    moreover from True m have "map_of rc' =
           (\<lambda>k. if k = ''class'' \<and> ''class'' \<in> set (key # keys) then Some (PStr (strip_namespace s))
                else if k = ''replication_factor'' \<and> ''replication_factor'' \<in> set (key # keys)
                then Some (convert_value b (the (map_of m ''replication_factor'')))
                else map_of rc k)"
      by (auto simp add: update_conv' fun_eq_iff)
    ultimately show ?thesis by blast
  next
    case False
    with Cons.prems have p2: "''class'' \<in> set keys \<longrightarrow> map_of m ''class'' = Some (PStr s)" by simp
    show ?thesis
    proof (cases "key = ''replication_factor''")
      case True
      from Cons.IH [OF p1 p2,
          of "AList.update ''replication_factor'' (convert_value b v) rc" dcs]
      obtain rc' where r: "replication_loop b m keys
          (AList.update ''replication_factor'' (convert_value b v) rc) dcs =
           Inr (rc', dcs @ map (\<lambda>k. PDict [(''name'', PStr k),
                                  (''replication_factor'', convert_value b (the (map_of m k)))])
                          (filter (\<lambda>k. k \<noteq> ''class'' \<and> k \<noteq> ''replication_factor'') keys))"
        and m: "map_of rc' =
           (\<lambda>k. if k = ''class'' \<and> ''class'' \<in> set keys then Some (PStr (strip_namespace s))
                else if k = ''replication_factor'' \<and> ''replication_factor'' \<in> set keys
                then Some (convert_value b (the (map_of m ''replication_factor'')))
                else map_of (AList.update ''replication_factor'' (convert_value b v) rc) k)"
        by blast
      from True v r have "replication_loop b m (key # keys) rc dcs =
           Inr (rc', dcs @ map (\<lambda>k. PDict [(''name'', PStr k),
                                  (''replication_factor'', convert_value b (the (map_of m k)))])
                          (filter (\<lambda>k. k \<noteq> ''class'' \<and> k \<noteq> ''replication_factor'') (key # keys)))"
        by (simp add: dict_getitem_def)
      moreover from True v m have "map_of rc' =
           (\<lambda>k. if k = ''class'' \<and> ''class'' \<in> set (key # keys) then Some (PStr (strip_namespace s))
                else if k = ''replication_factor'' \<and> ''replication_factor'' \<in> set (key # keys)
                then Some (convert_value b (the (map_of m ''replication_factor'')))
                else map_of rc k)"
        by (auto simp add: update_conv' fun_eq_iff)
      ultimately show ?thesis by blast
    next
      case rf: False
      let ?e = "PDict [(''name'', PStr key), (''replication_factor'', convert_value b v)]"
      from Cons.IH [OF p1 p2, of rc "dcs @ [?e]"]
      obtain rc' where r: "replication_loop b m keys rc (dcs @ [?e]) =
           Inr (rc', (dcs @ [?e]) @ map (\<lambda>k. PDict [(''name'', PStr k),
                                  (''replication_factor'', convert_value b (the (map_of m k)))])
                          (filter (\<lambda>k. k \<noteq> ''class'' \<and> k \<noteq> ''replication_factor'') keys))"
        and m: "map_of rc' =
           (\<lambda>k. if k = ''class'' \<and> ''class'' \<in> set keys then Some (PStr (strip_namespace s))
                else if k = ''replication_factor'' \<and> ''replication_factor'' \<in> set keys
                then Some (convert_value b (the (map_of m ''replication_factor'')))
                else map_of rc k)"
        by blast
      from False rf v r have "replication_loop b m (key # keys) rc dcs =
           Inr (rc', dcs @ map (\<lambda>k. PDict [(''name'', PStr k),
                                  (''replication_factor'', convert_value b (the (map_of m k)))])
                          (filter (\<lambda>k. k \<noteq> ''class'' \<and> k \<noteq> ''replication_factor'') (key # keys)))"
        by (simp add: dict_getitem_def)
      moreover from False rf m have "map_of rc' =
           (\<lambda>k. if k = ''class'' \<and> ''class'' \<in> set (key # keys) then Some (PStr (strip_namespace s))
                else if k = ''replication_factor'' \<and> ''replication_factor'' \<in> set (key # keys)
                then Some (convert_value b (the (map_of m ''replication_factor'')))
                else map_of rc k)"
        by (auto simp add: fun_eq_iff)
      ultimately show ?thesis by blast
    qed
  qed
qed


lemma map_keys_lookup:
  assumes "distinct (map fst m)"
  shows "map (\<lambda>k. f k (the (map_of m k))) (filter P (map fst m)) =
         map (\<lambda>(k, v). f k v) (filter (\<lambda>(k, v). P k) m)"
proof -
  have "filter P (map fst m) = map fst (filter (\<lambda>(k, v). P k) m)"
    by (simp add: filter_map comp_def case_prod_unfold)
  moreover have "map (\<lambda>k. f k (the (map_of m k))) (map fst (filter (\<lambda>(k, v). P k) m)) =
                 map (\<lambda>(k, v). f k v) (filter (\<lambda>(k, v). P k) m)"
    using assms by (auto simp add: comp_def)
  ultimately show ?thesis by simp
qed

lemma replication_result_keys:
  assumes "map_of rc' =
           (\<lambda>k. if k = ''class'' \<and> ''class'' \<in> set (map fst m) then Some (PStr (strip_namespace s))
                else if k = ''replication_factor'' \<and> ''replication_factor'' \<in> set (map fst m)
                then Some (convert_value b (the (map_of m ''replication_factor'')))
                else map_of [] k)"
    and "map_of out = (map_of rc')(''data_centers'' \<mapsto> dcs)"
  shows "dom (map_of out) =
           {''data_centers''} \<union> ({''class'', ''replication_factor''} \<inter> fst ` set m)"
proof -
  have "k \<in> dom (map_of out) \<longleftrightarrow>
          k \<in> {''data_centers''} \<union> ({''class'', ''replication_factor''} \<inter> fst ` set m)" for k
  proof (cases "k = ''class''")
    case True
    then show ?thesis by (simp add: assms dom_def)
  next
    case c: False
    show ?thesis
    proof (cases "k = ''replication_factor''")
      case True
      then show ?thesis by (simp add: assms dom_def)
    next
      case False
      with c show ?thesis by (simp add: assms dom_def)
    qed
  qed
  then show ?thesis by blast
qed

text \<open>
  Claim C1, as stated: the output of the replication normalizer on a map always has the
  key \<^verbatim>\<open>class\<close>. On a map without that key it has not: the loop writes \<^verbatim>\<open>class\<close> only when
  it meets the key.
\<close>

theorem replication_without_class:
  "get_replication_settings sample_builtins (POrderedMap [(''dc1'', PStr ''2'')]) =
     Inr (PDict [(''data_centers'',
                  PList [PDict [(''name'', PStr ''dc1''), (''replication_factor'', PInt 2)]])])"
  by (simp add: get_replication_settings_def dict_getitem_def convert_value_def)


text \<open>
  Claim C1, amended. For every map (each key once) whose \<^verbatim>\<open>class\<close> entry, when there is
  one, is a string, \<open>get_replication_settings\<close> returns a dictionary whose keys are
  \<^verbatim>\<open>data_centers\<close> and those of \<^verbatim>\<open>class\<close> and \<^verbatim>\<open>replication_factor\<close> that the input has;
  \<^verbatim>\<open>replication_factor\<close> is the input's value coerced; \<^verbatim>\<open>class\<close> is the input's value with
  everything up to and including the last \<^verbatim>\<open>"."\<close> removed; and \<^verbatim>\<open>data_centers\<close> lists, in
  the input's order, an entry of name and coerced value for every other key.
\<close>

theorem replication_settings_shape:
  assumes "distinct (map fst m)"
    and "\<forall>c. map_of m ''class'' = Some c \<longrightarrow> (\<exists>s. c = PStr s)"
  shows "\<exists>out. get_replication_settings b (POrderedMap m) = Inr (PDict out) \<and>
     fst ` set out = {''data_centers''} \<union> ({''class'', ''replication_factor''} \<inter> fst ` set m) \<and>
     map_of out ''data_centers'' =
       Some (PList (map (\<lambda>(k, v). PDict [(''name'', PStr k),
                                       (''replication_factor'', convert_value b v)])
                     (filter (\<lambda>(k, v). k \<noteq> ''class'' \<and> k \<noteq> ''replication_factor'') m))) \<and>
     map_of out ''replication_factor'' =
       map_option (convert_value b) (map_of m ''replication_factor'') \<and>
     (\<forall>s. map_of m ''class'' = Some (PStr s) \<longrightarrow>
          map_of out ''class'' = Some (PStr (strip_namespace s))) \<and>
     (map_of m ''class'' = None \<longrightarrow> map_of out ''class'' = None)"
proof -
  obtain s where s: "''class'' \<in> set (map fst m) \<longrightarrow> map_of m ''class'' = Some (PStr s)"
  proof (cases "map_of m ''class''")
    case None
    then have "''class'' \<notin> set (map fst m)" by (simp add: map_of_eq_None_iff)
    then show ?thesis using that by blast
  next
    case (Some c)
    with assms(2) obtain t where "c = PStr t" by blast
    with Some show ?thesis using that by blast
  qed
  have k: "\<forall>k\<in>set (map fst m). \<exists>v. map_of m k = Some v"
    by (auto simp add: weak_map_of_SomeI dest: map_of_SomeD intro: map_of_is_SomeI)
  let ?dcs = "map (\<lambda>(k, v). PDict [(''name'', PStr k), (''replication_factor'', convert_value b v)])
                (filter (\<lambda>(k, v). k \<noteq> ''class'' \<and> k \<noteq> ''replication_factor'') m)"
  have dcs: "map (\<lambda>k. PDict [(''name'', PStr k),
                          (''replication_factor'', convert_value b (the (map_of m k)))])
               (filter (\<lambda>k. k \<noteq> ''class'' \<and> k \<noteq> ''replication_factor'') (map fst m)) = ?dcs"
    by (rule map_keys_lookup [OF assms(1),
          of "\<lambda>k v. PDict [(''name'', PStr k), (''replication_factor'', convert_value b v)]"
             "\<lambda>k. k \<noteq> ''class'' \<and> k \<noteq> ''replication_factor''"])
  from replication_loop_result [OF k s, of b "[]" "[]"]
  obtain rc' where r: "replication_loop b m (map fst m) [] [] = Inr (rc', ?dcs)"
    and mo: "map_of rc' =
           (\<lambda>k. if k = ''class'' \<and> ''class'' \<in> set (map fst m) then Some (PStr (strip_namespace s))
                else if k = ''replication_factor'' \<and> ''replication_factor'' \<in> set (map fst m)
                then Some (convert_value b (the (map_of m ''replication_factor'')))
                else map_of [] k)"
    unfolding dcs by auto
  let ?out = "AList.update ''data_centers'' (PList ?dcs) rc'"
  have 1: "get_replication_settings b (POrderedMap m) = Inr (PDict ?out)"
    by (simp add: get_replication_settings_def r)
  have mout: "map_of ?out = (map_of rc')(''data_centers'' \<mapsto> PList ?dcs)"
    by (simp add: update_conv')
  have 2: "map_of ?out ''data_centers'' = Some (PList ?dcs)"
    by (simp add: mout)
  have 3: "map_of ?out ''replication_factor'' =
             map_option (convert_value b) (map_of m ''replication_factor'')"
  proof (cases "map_of m ''replication_factor''")
    case None
    then have "''replication_factor'' \<notin> set (map fst m)" by (simp add: map_of_eq_None_iff)
    with None show ?thesis by (simp add: mout mo)
  next
    case (Some v)
    then have "''replication_factor'' \<in> set (map fst m)"
      by (auto dest: map_of_SomeD simp add: image_iff intro: bexI [of _ "(''replication_factor'', v)"])
    with Some show ?thesis by (simp add: mout mo)
  qed
  have 4: "\<forall>t. map_of m ''class'' = Some (PStr t) \<longrightarrow>
             map_of ?out ''class'' = Some (PStr (strip_namespace t))"
  proof (intro allI impI)
    fix t assume t: "map_of m ''class'' = Some (PStr t)"
    then have i: "''class'' \<in> set (map fst m)"
      by (auto dest: map_of_SomeD simp add: image_iff intro: bexI [of _ "(''class'', PStr t)"])
    with s t have "s = t" by simp
    with i show "map_of ?out ''class'' = Some (PStr (strip_namespace t))"
      by (simp add: mout mo)
  qed
  have 5: "map_of m ''class'' = None \<longrightarrow> map_of ?out ''class'' = None"
    by (simp add: mout mo map_of_eq_None_iff)
  from replication_result_keys [OF mo mout]
  have 6: "fst ` set ?out =
          {''data_centers''} \<union> ({''class'', ''replication_factor''} \<inter> fst ` set m)"
    by (simp add: dom_map_of_conv_image_fst)
  show ?thesis
    by (rule exI [of _ ?out]) (intro conjI 1 2 3 4 5 6)
qed

text \<open>The specification's example of a network topology with two data centers.\<close>

theorem replication_settings_shape_witness:
  "distinct (map fst [(''class'', PStr ''org.apache.cassandra.locator.NetworkTopologyStrategy''),
                      (''dc1'', PStr ''2''), (''dc2'', PStr ''3'')]) \<and>
   (\<exists>out. get_replication_settings sample_builtins
             (POrderedMap [(''class'', PStr ''org.apache.cassandra.locator.NetworkTopologyStrategy''),
                           (''dc1'', PStr ''2''), (''dc2'', PStr ''3'')]) = Inr (PDict out) \<and>
          fst ` set out = {''class'', ''data_centers''} \<and>
          map_of out ''data_centers'' =
            Some (PList [PDict [(''name'', PStr ''dc1''), (''replication_factor'', PInt 2)],
                         PDict [(''name'', PStr ''dc2''), (''replication_factor'', PInt 3)]]) \<and>
          map_of out ''replication_factor'' = None \<and>
          map_of out ''class'' = Some (PStr ''NetworkTopologyStrategy''))"
proof -
  let ?m = "[(''class'', PStr ''org.apache.cassandra.locator.NetworkTopologyStrategy''),
             (''dc1'', PStr ''2''), (''dc2'', PStr ''3'')]"
  have d: "distinct (map fst ?m)" by simp
  have c: "\<forall>c. map_of ?m ''class'' = Some c \<longrightarrow> (\<exists>s. c = PStr s)" by simp
  have n: "strip_namespace ''org.apache.cassandra.locator.NetworkTopologyStrategy''
             = ''NetworkTopologyStrategy''"
    by (simp add: strip_namespace_def)
  from replication_settings_shape [OF d c, of sample_builtins]
  obtain out where
    1: "get_replication_settings sample_builtins (POrderedMap ?m) = Inr (PDict out)" and
    2: "fst ` set out = {''data_centers''} \<union> ({''class'', ''replication_factor''} \<inter> fst ` set ?m)" and
    3: "map_of out ''data_centers'' =
       Some (PList (map (\<lambda>(k, v). PDict [(''name'', PStr k),
                                       (''replication_factor'', convert_value sample_builtins v)])
                     (filter (\<lambda>(k, v). k \<noteq> ''class'' \<and> k \<noteq> ''replication_factor'') ?m)))" and
    4: "map_of out ''replication_factor'' =
       map_option (convert_value sample_builtins) (map_of ?m ''replication_factor'')" and
    5: "\<forall>s. map_of ?m ''class'' = Some (PStr s) \<longrightarrow>
          map_of out ''class'' = Some (PStr (strip_namespace s))"
    by (elim exE conjE)
  from 2 have s2: "fst ` set out = {''class'', ''data_centers''}" by simp
  from 3 have s3: "map_of out ''data_centers'' =
            Some (PList [PDict [(''name'', PStr ''dc1''), (''replication_factor'', PInt 2)],
                         PDict [(''name'', PStr ''dc2''), (''replication_factor'', PInt 3)]])"
    by (simp add: convert_value_def)
  from 4 have s4: "map_of out ''replication_factor'' = None" by simp
  from 5 n have s5: "map_of out ''class'' = Some (PStr ''NetworkTopologyStrategy'')" by simp
  show ?thesis
    by (rule conjI [OF d]) (rule exI [of _ out], intro conjI 1 s2 s3 s4 s5)
qed


section \<open>Listing the keyspaces\<close>

lemma startswith_iff: "startswith s p \<longleftrightarrow> (\<exists>t. s = p @ t)"
proof
  assume "startswith s p"
  then have "s = p @ drop (length p) s"
    by (metis append_take_drop_id startswith_def)
  then show "\<exists>t. s = p @ t" ..
next
  assume "\<exists>t. s = p @ t"
  then show "startswith s p" by (auto simp add: startswith_def)
qed

text \<open>The specification's examples of names that are filtered and of one that is not.\<close>

lemma system_name_examples:
  "is_system_name (PStr ''system_auth'')"
  "is_system_name (PStr ''system'')"
  "is_system_name (PStr ''system_custom_app'')"
  "is_system_name (PStr ''SYSTEM_Traces'')"
  "\<not> is_system_name (PStr ''my_app'')"
  "\<not> is_system_name (PStr ''systems'')"
  by code_simp+

lemma class_is_str_lookup:
  assumes "class_is_str (POrderedMap m)" and "map_of m ''class'' = Some c"
  shows "\<exists>s. c = PStr s"
proof -
  from assms(2) have "(''class'', c) \<in> set m" by (rule map_of_SomeD)
  with assms(1) have "is_str c"
    by (auto simp add: class_is_str_def list_all_iff)
  then show ?thesis by (cases c) (simp_all add: is_str_def)
qed

lemma replication_settings_total:
  assumes "class_is_str v"
  shows "\<exists>out. get_replication_settings b v = Inr out"
proof (cases "is_ordered_map v")
  case False
  then show ?thesis
    by (cases v) (simp_all add: is_ordered_map_def get_replication_settings_def)
next
  case True
  then obtain m where v: "v = POrderedMap m"
    by (cases v) (simp_all add: is_ordered_map_def)
  obtain s where s: "''class'' \<in> set (map fst m) \<longrightarrow> map_of m ''class'' = Some (PStr s)"
  proof (cases "map_of m ''class''")
    case None
    then have "''class'' \<notin> set (map fst m)" by (simp add: map_of_eq_None_iff)
    then show ?thesis using that by simp
  next
    case (Some c)
    with assms v class_is_str_lookup obtain t where "c = PStr t" by blast
    with Some show ?thesis using that [of t] by simp
  qed
  have k: "\<forall>k\<in>set (map fst m). \<exists>v. map_of m k = Some v"
    by (auto simp add: weak_map_of_SomeI dest: map_of_SomeD intro: map_of_is_SomeI)
  from replication_loop_result [OF k s, of b "[]" "[]"]
  obtain rc' dcs where "replication_loop b m (map fst m) [] [] = Inr (rc', dcs)"
    by (elim exE conjE)
  with v show ?thesis by (simp add: get_replication_settings_def)
qed

lemma key_mapper_simps:
  "key_mapper ''keyspace_name'' = ''name''"
  "key_mapper ''table_name'' = ''name''"
  "k \<noteq> ''keyspace_name'' \<Longrightarrow> k \<noteq> ''table_name'' \<Longrightarrow> key_mapper k = k"
  by (simp_all add: key_mapper_def)

lemma keyspace_row_loop_name:
  assumes "distinct (map fst items)"
    and "map_of items ''name'' = None"
    and "map_of items ''table_name'' = None"
    and "list_all (\<lambda>(k, v). class_is_str v) items"
  shows "\<exists>d. keyspace_row_loop b items acc = Inr d \<and>
           map_of d ''name'' =
             (case map_of items ''keyspace_name'' of
                Some v \<Rightarrow> Some v
              | None \<Rightarrow> map_of acc ''name'')"
  using assms
proof (induction items arbitrary: acc)
  case Nil
  then show ?case by simp
next
  case (Cons kv items)
  obtain k v where kv: "kv = (k, v)" by (cases kv)
  from Cons.prems kv have d: "distinct (map fst items)" and kn: "k \<notin> fst ` set items"
    and n: "map_of items ''name'' = None" and kname: "k \<noteq> ''name''"
    and t: "map_of items ''table_name'' = None" and ktab: "k \<noteq> ''table_name''"
    and c: "list_all (\<lambda>(k, v). class_is_str v) items" and cv: "class_is_str v"
    by (auto split: if_splits)
  show ?case
  proof (cases "k = ''keyspace_name''")
    case True
    from kn True have none: "map_of items ''keyspace_name'' = None"
      by (simp add: map_of_eq_None_iff)
    from Cons.IH [OF d n t c, of "AList.update ''name'' v acc"]
    obtain d' where "keyspace_row_loop b items (AList.update ''name'' v acc) = Inr d'"
      and "map_of d' ''name'' = (case map_of items ''keyspace_name'' of
                Some v \<Rightarrow> Some v
              | None \<Rightarrow> map_of (AList.update ''name'' v acc) ''name'')"
      by (elim exE conjE)
    with True none kv show ?thesis
      by (simp add: key_mapper_simps update_conv')
  next
    case False
    with ktab have km: "key_mapper k = k" by (simp add: key_mapper_simps)
    obtain v' where v': "(if k = ''replication'' then get_replication_settings b v else Inr v) = Inr v'"
      using replication_settings_total [OF cv, of b] by (cases "k = ''replication''") auto
    from Cons.IH [OF d n t c, of "AList.update k v' acc"]
    obtain d' where "keyspace_row_loop b items (AList.update k v' acc) = Inr d'"
      and "map_of d' ''name'' = (case map_of items ''keyspace_name'' of
                Some v \<Rightarrow> Some v
              | None \<Rightarrow> map_of (AList.update k v' acc) ''name'')"
      by (elim exE conjE)
    with False kname kv km v' show ?thesis
      by (simp add: update_conv' split: option.splits)
  qed
qed


lemma keyspaces_loop_result:
  assumes "list_all keyspace_row_ok rows"
  shows "\<exists>out. keyspaces_loop b rows acc = Inr (acc @ out) \<and>
           list_all2 (\<lambda>row ks. \<exists>d. ks = PDict d \<and> map_of d ''name'' = map_of row ''keyspace_name'')
             (filter (\<lambda>row. \<not> is_system_name (dict_get row ''keyspace_name'' PNone)) rows) out"
  using assms
proof (induction rows arbitrary: acc)
  case Nil
  then show ?case by simp
next
  case (Cons row rows)
  from Cons.prems have ok: "keyspace_row_ok row" and oks: "list_all keyspace_row_ok rows"
    by simp_all
  from ok obtain s where s: "map_of row ''keyspace_name'' = Some (PStr s)"
    by (cases "map_of row ''keyspace_name''"; cases "the (map_of row ''keyspace_name'')")
      (simp_all add: keyspace_row_ok_def is_str_def)
  then have get: "dict_get row ''keyspace_name'' PNone = PStr s"
    by (simp add: dict_get_def)
  have low: "py_lower (PStr s) = Inr (map lower_char s)"
    by (simp add: py_lower_def)
  show ?case
  proof (cases "is_system_name (PStr s)")
    case True
    then have sys: "map lower_char s = ''system'' \<or> startswith (map lower_char s) ''system_''"
      by (simp add: is_system_name_def low)
    from Cons.IH [OF oks, of acc] obtain out where
      "keyspaces_loop b rows acc = Inr (acc @ out)" and
      "list_all2 (\<lambda>row ks. \<exists>d. ks = PDict d \<and> map_of d ''name'' = map_of row ''keyspace_name'')
             (filter (\<lambda>row. \<not> is_system_name (dict_get row ''keyspace_name'' PNone)) rows) out"
      by (elim exE conjE)
    with True sys get low show ?thesis by simp
  next
    case False
    then have nsys: "\<not> (map lower_char s = ''system'' \<or> startswith (map lower_char s) ''system_'')"
      by (simp add: is_system_name_def low)
    from ok have "distinct (map fst row)" "map_of row ''name'' = None"
      "map_of row ''table_name'' = None" "list_all (\<lambda>(k, v). class_is_str v) row"
      by (simp_all add: keyspace_row_ok_def)
    from keyspace_row_loop_name [OF this, of b "[]"] s
    obtain d where d: "keyspace_row_loop b row [] = Inr d"
      and name: "map_of d ''name'' = map_of row ''keyspace_name''"
      by auto
    from Cons.IH [OF oks, of "acc @ [PDict d]"] obtain out where
      l: "keyspaces_loop b rows (acc @ [PDict d]) = Inr ((acc @ [PDict d]) @ out)" and
      r: "list_all2 (\<lambda>row ks. \<exists>d. ks = PDict d \<and> map_of d ''name'' = map_of row ''keyspace_name'')
             (filter (\<lambda>row. \<not> is_system_name (dict_get row ''keyspace_name'' PNone)) rows) out"
      by (elim exE conjE)
    from nsys get low d l
    have 1: "keyspaces_loop b (row # rows) acc = Inr (acc @ (PDict d # out))" by simp
    from False get name r
    have 2: "list_all2 (\<lambda>row ks. \<exists>d. ks = PDict d \<and> map_of d ''name'' = map_of row ''keyspace_name'')
             (filter (\<lambda>row. \<not> is_system_name (dict_get row ''keyspace_name'' PNone)) (row # rows))
             (PDict d # out)" by simp
    show ?thesis
      by (rule exI [of _ "PDict d # out"]) (intro conjI 1 2)
  qed
qed

lemma list_all2_transfer_all:
  assumes "list_all2 R xs ys" and "\<forall>x\<in>set xs. P x" and "\<And>x y. R x y \<Longrightarrow> P x \<Longrightarrow> Q y"
  shows "list_all Q ys"
  using assms by (induction xs ys rule: list_all2_induct) auto

text \<open>
  Claim C3. When the catalog query returns the rows, \<open>get_keyspace_configs\<close> returns one
  keyspace for each row whose name is not internal, in the rows' order, and none for
  the others; the name of each keyspace is the row's \<^verbatim>\<open>keyspace_name\<close> as it stands, not
  lower-cased. Hence no keyspace of the output has an internal name.
\<close>

theorem keyspace_filter:
  assumes "exec_query drv connection ''SELECT * FROM keyspaces'' w = (Inr rows, w')"
    and "list_all keyspace_row_ok rows"
  shows "\<exists>out. get_keyspace_configs b drv connection w =
                 (Inr (PDict [(''keyspaces'', PList out)]), w') \<and>
           list_all2 (\<lambda>row ks. \<exists>d. ks = PDict d \<and> map_of d ''name'' = map_of row ''keyspace_name'')
             (filter (\<lambda>row. \<not> is_system_name (dict_get row ''keyspace_name'' PNone)) rows) out \<and>
           list_all (\<lambda>ks. \<exists>d. ks = PDict d \<and> \<not> is_system_name (dict_get d ''name'' PNone)) out"
proof -
  let ?R = "\<lambda>row ks. \<exists>d. ks = PDict d \<and> map_of d ''name'' = map_of row ''keyspace_name''"
  let ?keep = "\<lambda>row. \<not> is_system_name (dict_get row ''keyspace_name'' PNone)"
  from keyspaces_loop_result [OF assms(2), of b "[]"] obtain out where
    l: "keyspaces_loop b rows [] = Inr out" and r: "list_all2 ?R (filter ?keep rows) out"
    by auto
  from assms(1) l have 1: "get_keyspace_configs b drv connection w =
                 (Inr (PDict [(''keyspaces'', PList out)]), w')"
    by (simp add: get_keyspace_configs_def)
  have k: "\<forall>row\<in>set (filter ?keep rows). ?keep row" by simp
  have 2: "list_all (\<lambda>ks. \<exists>d. ks = PDict d \<and> \<not> is_system_name (dict_get d ''name'' PNone)) out"
  proof (rule list_all2_transfer_all [OF r k])
    fix row ks
    assume "?R row ks" and "?keep row"
    then show "\<exists>d. ks = PDict d \<and> \<not> is_system_name (dict_get d ''name'' PNone)"
      by (auto simp add: dict_get_def)
  qed
  show ?thesis
    by (rule exI [of _ out]) (intro conjI 1 r 2)
qed


text \<open>
  The sample cluster: \<^verbatim>\<open>system_auth\<close> and \<^verbatim>\<open>System\<close> are left out, \<^verbatim>\<open>My_App\<close> is kept.
\<close>

theorem keyspace_filter_witness:
  "exec_query sample_driver get_local_connection ''SELECT * FROM keyspaces'' fresh_world =
     (Inr sample_keyspace_rows,
      \<lparr>logged = [], clusters = [(PList [PStr ''localhost''], PInt 9042, PRoundRobinPolicy)],
       connected = [(PList [PStr ''localhost''], PInt 9042, PRoundRobinPolicy)],
       opened = 1, closed = 1\<rparr>) \<and>
   list_all keyspace_row_ok sample_keyspace_rows \<and>
   (\<exists>out. get_keyspace_configs sample_builtins sample_driver get_local_connection fresh_world =
            (Inr (PDict [(''keyspaces'', PList out)]),
             \<lparr>logged = [], clusters = [(PList [PStr ''localhost''], PInt 9042, PRoundRobinPolicy)],
              connected = [(PList [PStr ''localhost''], PInt 9042, PRoundRobinPolicy)],
              opened = 1, closed = 1\<rparr>) \<and>
          list_all2 (\<lambda>row ks. \<exists>d. ks = PDict d \<and> map_of d ''name'' = map_of row ''keyspace_name'')
            [[(''keyspace_name'', PStr ''My_App''),
              (''durable_writes'', PBool True),
              (''replication'', POrderedMap
                 [(''class'', PStr ''org.apache.cassandra.locator.NetworkTopologyStrategy''),
                  (''dc1'', PStr ''2''),
                  (''dc2'', PStr ''3'')])]] out \<and>
          list_all (\<lambda>ks. \<exists>d. ks = PDict d \<and> \<not> is_system_name (dict_get d ''name'' PNone)) out)"
proof -
  let ?w = "\<lparr>logged = [], clusters = [(PList [PStr ''localhost''], PInt 9042, PRoundRobinPolicy)],
       connected = [(PList [PStr ''localhost''], PInt 9042, PRoundRobinPolicy)],
       opened = 1, closed = 1\<rparr>"
  have q: "exec_query sample_driver get_local_connection ''SELECT * FROM keyspaces'' fresh_world =
     (Inr sample_keyspace_rows, ?w)"
    by code_simp
  have ok: "list_all keyspace_row_ok sample_keyspace_rows"
    by code_simp
  have kept: "filter (\<lambda>row. \<not> is_system_name (dict_get row ''keyspace_name'' PNone))
                sample_keyspace_rows =
              [[(''keyspace_name'', PStr ''My_App''),
                (''durable_writes'', PBool True),
                (''replication'', POrderedMap
                   [(''class'', PStr ''org.apache.cassandra.locator.NetworkTopologyStrategy''),
                    (''dc1'', PStr ''2''),
                    (''dc2'', PStr ''3'')])]]"
    by code_simp
  from keyspace_filter [OF q ok, of sample_builtins]
  have "\<exists>out. get_keyspace_configs sample_builtins sample_driver get_local_connection fresh_world =
            (Inr (PDict [(''keyspaces'', PList out)]), ?w) \<and>
          list_all2 (\<lambda>row ks. \<exists>d. ks = PDict d \<and> map_of d ''name'' = map_of row ''keyspace_name'')
            [[(''keyspace_name'', PStr ''My_App''),
              (''durable_writes'', PBool True),
              (''replication'', POrderedMap
                 [(''class'', PStr ''org.apache.cassandra.locator.NetworkTopologyStrategy''),
                  (''dc1'', PStr ''2''),
                  (''dc2'', PStr ''3'')])]] out \<and>
          list_all (\<lambda>ks. \<exists>d. ks = PDict d \<and> \<not> is_system_name (dict_get d ''name'' PNone)) out"
    unfolding kept .
  with q ok show ?thesis by (intro conjI)
qed


section \<open>Listing the tables\<close>

lemma subconfig_loop_total:
  assumes "list_all (\<lambda>(k, c). k = ''class'' \<longrightarrow> is_str c) m"
  shows "\<exists>s. subconfig_loop b m acc = Inr s"
  using assms
proof (induction m arbitrary: acc)
  case Nil
  then show ?case by simp
next
  case (Cons kv m)
  obtain k v where kv: "kv = (k, v)" by (cases kv)
  from Cons.prems kv have rest: "list_all (\<lambda>(k, c). k = ''class'' \<longrightarrow> is_str c) m"
    and head: "k = ''class'' \<longrightarrow> is_str v" by simp_all
  obtain v' where v': "(if k = ''class'' then get_class_name v else Inr v) = Inr v'"
  proof (cases "k = ''class''")
    case True
    with head obtain s where "v = PStr s" by (cases v) (simp_all add: is_str_def)
    with True show ?thesis using that by (simp add: get_class_name_str)
  next
    case False
    then show ?thesis using that by simp
  qed
  from Cons.IH [OF rest, of "AList.update k (convert_value b v') acc"] kv v'
  show ?case by simp
qed

lemma subconfig_settings_total:
  assumes "class_is_str v"
  shows "\<exists>out. get_subconfig_settings b v = Inr out"
proof (cases v)
  case (POrderedMap m)
  with assms have "list_all (\<lambda>(k, c). k = ''class'' \<longrightarrow> is_str c) m"
    by (simp add: class_is_str_def)
  from subconfig_loop_total [OF this, of b "[]"] POrderedMap show ?thesis
    by (auto simp add: get_subconfig_settings_def)
qed (simp_all add: get_subconfig_settings_def)

lemma table_value_total:
  assumes "class_is_str v"
  shows "\<exists>v'. table_value b k v = Inr v'"
  using replication_settings_total [OF assms, of b] subconfig_settings_total [OF assms, of b]
  by (simp add: table_value_def)

lemma table_value_spec:
  assumes "table_value b k v = Inr v'"
  shows "field_as_specified b k v v'"
  using assms
  by (cases v) (auto simp add: table_value_def field_as_specified_def is_ordered_map_def
      split: if_splits)

lemma update_append: "k \<notin> fst ` set al \<Longrightarrow> AList.update k v al = al @ [(k, v)]"
  by (induction al) auto

lemma key_mapper_renamed: "k \<noteq> ''keyspace_name'' \<Longrightarrow> key_mapper k = renamed k"
  by (simp add: key_mapper_def renamed_def)

lemma table_row_loop_result:
  assumes "distinct (map fst acc @ map renamed (filter (\<lambda>k. k \<noteq> ''keyspace_name'') (map fst items)))"
    and "list_all (\<lambda>(k, v). class_is_str v) items"
  shows "\<exists>t. table_row_loop b items acc = Inr (acc @ t) \<and>
           list_all2 (\<lambda>(k, v) (k', v'). k' = renamed k \<and> field_as_specified b k v v')
             (filter (\<lambda>(k, v). k \<noteq> ''keyspace_name'') items) t"
  using assms
proof (induction items arbitrary: acc)
  case Nil
  then show ?case by simp
next
  case (Cons kv items)
  obtain k v where kv: "kv = (k, v)" by (cases kv)
  from Cons.prems kv have c: "list_all (\<lambda>(k, v). class_is_str v) items" and cv: "class_is_str v"
    by simp_all
  show ?case
  proof (cases "k = ''keyspace_name''")
    case True
    with Cons.prems kv have
      "distinct (map fst acc @ map renamed (filter (\<lambda>k. k \<noteq> ''keyspace_name'') (map fst items)))"
      by simp
    from Cons.IH [OF this c] True kv show ?thesis by simp
  next
    case False
    obtain v' where v': "table_value b k v = Inr v'"
      using table_value_total [OF cv] by blast
    from False Cons.prems kv have fresh: "renamed k \<notin> fst ` set acc" by auto
    from False Cons.prems kv have
      "distinct (map fst (acc @ [(renamed k, v')]) @
                 map renamed (filter (\<lambda>k. k \<noteq> ''keyspace_name'') (map fst items)))"
      by auto
    from Cons.IH [OF this c] obtain t where
      l: "table_row_loop b items (acc @ [(renamed k, v')]) = Inr ((acc @ [(renamed k, v')]) @ t)"
      and r: "list_all2 (\<lambda>(k, v) (k', v'). k' = renamed k \<and> field_as_specified b k v v')
             (filter (\<lambda>(k, v). k \<noteq> ''keyspace_name'') items) t"
      by (elim exE conjE)
    from False kv v' l fresh
    have 1: "table_row_loop b (kv # items) acc = Inr (acc @ ((renamed k, v') # t))"
      by (simp add: key_mapper_renamed update_append)
    from False kv r table_value_spec [OF v']
    have 2: "list_all2 (\<lambda>(k, v) (k', v'). k' = renamed k \<and> field_as_specified b k v v')
             (filter (\<lambda>(k, v). k \<noteq> ''keyspace_name'') (kv # items)) ((renamed k, v') # t)"
      by simp
    show ?thesis
      by (rule exI [of _ "(renamed k, v') # t"]) (intro conjI 1 2)
  qed
qed


lemma renamed_keys_distinct:
  assumes "distinct (map fst row)" and "map_of row ''name'' = None"
  shows "distinct (map renamed (filter (\<lambda>k. k \<noteq> ''keyspace_name'') (map fst row)))"
proof -
  from assms(2) have n: "''name'' \<notin> set (map fst row)" by (simp add: map_of_eq_None_iff)
  have "inj_on renamed (set (filter (\<lambda>k. k \<noteq> ''keyspace_name'') (map fst row)))"
  proof (rule inj_onI)
    fix x y
    assume x: "x \<in> set (filter (\<lambda>k. k \<noteq> ''keyspace_name'') (map fst row))"
      and y: "y \<in> set (filter (\<lambda>k. k \<noteq> ''keyspace_name'') (map fst row))"
      and e: "renamed x = renamed y"
    from x have "x \<in> set (map fst row)" by simp
    with n have "x \<noteq> ''name''" by blast
    moreover from y have "y \<in> set (map fst row)" by simp
    with n have "y \<noteq> ''name''" by blast
    ultimately show "x = y" using e by (simp add: renamed_def split: if_splits)
  qed
  moreover from assms(1) have "distinct (filter (\<lambda>k. k \<noteq> ''keyspace_name'') (map fst row))"
    by simp
  ultimately show ?thesis by (simp add: distinct_map)
qed

lemma table_row_result:
  assumes "table_row_ok row"
  shows "\<exists>t. table_row_loop b row [] = Inr t \<and> table_as_specified b row t \<and>
           map_of t ''keyspace_name'' = None"
proof -
  from assms have d: "distinct (map fst row)" and n: "map_of row ''name'' = None"
    and c: "list_all (\<lambda>(k, v). class_is_str v) row"
    by (simp_all add: table_row_ok_def)
  from renamed_keys_distinct [OF d n]
  have "distinct (map fst [] @ map renamed (filter (\<lambda>k. k \<noteq> ''keyspace_name'') (map fst row)))"
    by simp
  from table_row_loop_result [OF this c, of b] obtain t where
    l: "table_row_loop b row [] = Inr t" and
    r: "list_all2 (\<lambda>(k, v) (k', v'). k' = renamed k \<and> field_as_specified b k v v')
             (filter (\<lambda>(k, v). k \<noteq> ''keyspace_name'') row) t"
    by auto
  from r have s: "table_as_specified b row t" by (simp add: table_as_specified_def)
  have "list_all2 (\<lambda>kv kv'. fst kv' = renamed (fst kv))
          (filter (\<lambda>(k, v). k \<noteq> ''keyspace_name'') row) t"
    by (rule list_all2_mono [OF r]) auto
  then have "map fst t = map (\<lambda>kv. renamed (fst kv)) (filter (\<lambda>(k, v). k \<noteq> ''keyspace_name'') row)"
    by (induction rule: list_all2_induct) simp_all
  then have "set (map fst t) = (\<lambda>kv. renamed (fst kv)) ` set (filter (\<lambda>(k, v). k \<noteq> ''keyspace_name'') row)"
    by simp
  then have "''keyspace_name'' \<notin> set (map fst t)"
    by (auto simp add: renamed_def split: if_splits)
  then have k: "map_of t ''keyspace_name'' = None"
    by (simp add: map_of_eq_None_iff)
  show ?thesis
    by (rule exI [of _ t]) (intro conjI l s k)
qed

lemma tables_loop_result:
  assumes "list_all table_row_ok rows"
  shows "\<exists>out. tables_loop b rows acc = Inr (acc @ map PDict out) \<and>
           list_all2 (table_as_specified b) rows out \<and>
           list_all (\<lambda>t. map_of t ''keyspace_name'' = None) out"
  using assms
proof (induction rows arbitrary: acc)
  case Nil
  then show ?case by simp
next
  case (Cons row rows)
  from Cons.prems have ok: "table_row_ok row" and oks: "list_all table_row_ok rows"
    by simp_all
  from table_row_result [OF ok, of b] obtain t where
    t: "table_row_loop b row [] = Inr t" and s: "table_as_specified b row t"
    and k: "map_of t ''keyspace_name'' = None"
    by (elim exE conjE)
  from Cons.IH [OF oks, of "acc @ [PDict t]"] obtain out where
    l: "tables_loop b rows (acc @ [PDict t]) = Inr ((acc @ [PDict t]) @ map PDict out)" and
    r: "list_all2 (table_as_specified b) rows out" and
    a: "list_all (\<lambda>t. map_of t ''keyspace_name'' = None) out"
    by (elim exE conjE)
  from t l have 1: "tables_loop b (row # rows) acc = Inr (acc @ map PDict (t # out))" by simp
  from s r have 2: "list_all2 (table_as_specified b) (row # rows) (t # out)" by simp
  from k a have 3: "list_all (\<lambda>t. map_of t ''keyspace_name'' = None) (t # out)" by simp
  show ?case
    by (rule exI [of _ "t # out"]) (intro conjI 1 2 3)
qed

text \<open>
  Claim C4. When the catalog query returns the rows, \<open>get_table_configs\<close> returns one table
  object for each row, in the rows' order, and each is as the specification describes
  it: no \<^verbatim>\<open>keyspace_name\<close>, \<^verbatim>\<open>table_name\<close> renamed to \<^verbatim>\<open>name\<close>, maps normalized, \<^verbatim>\<open>flags\<close> a
  list, \<^verbatim>\<open>id\<close> a string, every other field with its key and value.
\<close>

theorem table_configs_as_specified:
  assumes "exec_query drv connection (table_query b keyspace_name) w = (Inr rows, w')"
    and "list_all table_row_ok rows"
  shows "\<exists>out. get_table_configs b drv connection keyspace_name w =
                 (Inr (PList (map PDict out)), w') \<and>
           list_all2 (table_as_specified b) rows out \<and>
           list_all (\<lambda>t. map_of t ''keyspace_name'' = None) out"
proof -
  from tables_loop_result [OF assms(2), of b "[]"] obtain out where
    l: "tables_loop b rows [] = Inr (map PDict out)" and
    r: "list_all2 (table_as_specified b) rows out" and
    a: "list_all (\<lambda>t. map_of t ''keyspace_name'' = None) out"
    by auto
  from assms(1) l have 1: "get_table_configs b drv connection keyspace_name w =
                 (Inr (PList (map PDict out)), w')"
    by (simp add: get_table_configs_def)
  show ?thesis
    by (rule exI [of _ out]) (intro conjI 1 r a)
qed


text \<open>The sample table \<^verbatim>\<open>users\<close> of the keyspace \<^verbatim>\<open>My_App\<close>, and what becomes of it.\<close>

theorem table_configs_as_specified_witness:
  "exec_query sample_driver get_local_connection (table_query sample_builtins (PStr ''My_App''))
     fresh_world =
     (Inr sample_table_rows,
      \<lparr>logged = [], clusters = [(PList [PStr ''localhost''], PInt 9042, PRoundRobinPolicy)],
       connected = [(PList [PStr ''localhost''], PInt 9042, PRoundRobinPolicy)],
       opened = 1, closed = 1\<rparr>) \<and>
   list_all table_row_ok sample_table_rows \<and>
   (\<exists>out. get_table_configs sample_builtins sample_driver get_local_connection (PStr ''My_App'')
            fresh_world =
            (Inr (PList (map PDict out)),
             \<lparr>logged = [], clusters = [(PList [PStr ''localhost''], PInt 9042, PRoundRobinPolicy)],
              connected = [(PList [PStr ''localhost''], PInt 9042, PRoundRobinPolicy)],
              opened = 1, closed = 1\<rparr>) \<and>
          list_all2 (table_as_specified sample_builtins) sample_table_rows out \<and>
          list_all (\<lambda>t. map_of t ''keyspace_name'' = None) out) \<and>
   fst (get_table_configs sample_builtins sample_driver get_local_connection (PStr ''My_App'')
          fresh_world) =
     Inr (PList [PDict
       [(''name'', PStr ''users''),
        (''caching'', PDict [(''keys'', PStr ''ALL''), (''rows_per_partition'', PInt 1)]),
        (''compaction'', PDict [(''class'', PStr ''SizeTieredCompactionStrategy''),
                                (''max_threshold'', PInt 3)]),
        (''flags'', PList [PStr ''compound'']),
        (''gc_grace_seconds'', PInt 864000),
        (''id'', PStr ''00000000-0000-0000-0000-000000000000'')]])"
proof -
  let ?w = "\<lparr>logged = [], clusters = [(PList [PStr ''localhost''], PInt 9042, PRoundRobinPolicy)],
       connected = [(PList [PStr ''localhost''], PInt 9042, PRoundRobinPolicy)],
       opened = 1, closed = 1\<rparr>"
  have q: "exec_query sample_driver get_local_connection
             (table_query sample_builtins (PStr ''My_App'')) fresh_world =
           (Inr sample_table_rows, ?w)"
    by code_simp
  have ok: "list_all table_row_ok sample_table_rows"
    by code_simp
  have v: "fst (get_table_configs sample_builtins sample_driver get_local_connection
                 (PStr ''My_App'') fresh_world) =
     Inr (PList [PDict
       [(''name'', PStr ''users''),
        (''caching'', PDict [(''keys'', PStr ''ALL''), (''rows_per_partition'', PInt 1)]),
        (''compaction'', PDict [(''class'', PStr ''SizeTieredCompactionStrategy''),
                                (''max_threshold'', PInt 3)]),
        (''flags'', PList [PStr ''compound'']),
        (''gc_grace_seconds'', PInt 864000),
        (''id'', PStr ''00000000-0000-0000-0000-000000000000'')]])"
    by code_simp
  show ?thesis
    by (intro conjI q ok v table_configs_as_specified [OF q ok])
qed


section \<open>The whole configuration\<close>

lemma exec_query_fst:
  "fst (exec_query drv connection q w) = fst (exec_query drv connection q w0)"
proof (cases "connect drv
    (case map_of connection ''hosts'' of None \<Rightarrow> PList [PStr ''localhost''] | Some h \<Rightarrow> h,
     case map_of connection ''port'' of None \<Rightarrow> PInt 9042 | Some p \<Rightarrow> p,
     case map_of connection ''load_balancing_policy'' of None \<Rightarrow> PRoundRobinPolicy | Some l \<Rightarrow> l)
    ''system_schema''")
  case None
  then show ?thesis
    by (simp add: exec_query_def try_body_cases [OF cluster_args_of_eq] on_exception_def
        split: sum.splits)
next
  case (Some ex)
  then show ?thesis
    by (simp add: exec_query_def try_body_cases [OF cluster_args_of_eq] on_exception_def)
qed

lemma get_table_configs_fst:
  "fst (get_table_configs b drv connection n w) = fst (get_table_configs b drv connection n w0)"
proof -
  obtain r w1 where 1: "exec_query drv connection (table_query b n) w = (r, w1)"
    by (cases "exec_query drv connection (table_query b n) w")
  obtain r0 w2 where 2: "exec_query drv connection (table_query b n) w0 = (r0, w2)"
    by (cases "exec_query drv connection (table_query b n) w0")
  from exec_query_fst [of drv connection "table_query b n" w w0] 1 2 have "r = r0" by simp
  with 1 2 show ?thesis
    by (simp add: get_table_configs_def split: sum.splits)
qed

lemma exec_query_args:
  assumes "cluster_args_of c = cluster_args_of c'"
  shows "exec_query drv c = exec_query drv c'"
  using assms by (simp add: exec_query_def try_body_def fun_eq_iff)

lemma get_table_configs_args:
  assumes "cluster_args_of c = cluster_args_of c'"
  shows "get_table_configs b drv c = get_table_configs b drv c'"
  by (simp add: get_table_configs_def fun_eq_iff exec_query_args [OF assms])

lemma get_keyspace_configs_args:
  assumes "cluster_args_of c = cluster_args_of c'"
  shows "get_keyspace_configs b drv c = get_keyspace_configs b drv c'"
  by (simp add: get_keyspace_configs_def fun_eq_iff exec_query_args [OF assms])

lemma attach_tables_args:
  assumes "cluster_args_of c = cluster_args_of c'"
  shows "attach_tables b drv c kss done w = attach_tables b drv c' kss done w"
proof (induction kss arbitrary: "done" w)
  case Nil
  then show ?case by simp
next
  case (Cons ks kss)
  then show ?case
    by (cases ks) (simp_all add: get_table_configs_args [OF assms] split: prod.splits sum.splits)
qed

lemma cluster_args_of_empty: "cluster_args_of [] = cluster_args_of get_local_connection"
  by (simp add: cluster_args_of_eq get_local_connection_def DEFAULT_PORT_def)

lemma attach_tables_result:
  assumes "\<forall>d\<in>set S. fst (get_table_configs b drv c (dict_get d ''name'' PNone) w0) = Inr (T d)"
  shows "fst (attach_tables b drv c (map PDict S) done w) =
           Inr (done @ map (\<lambda>d. PDict (AList.update ''tables'' (T d) d)) S)"
  using assms
proof (induction S arbitrary: "done" w)
  case Nil
  then show ?case by simp
next
  case (Cons d S)
  from Cons.prems have rest:
    "\<forall>d\<in>set S. fst (get_table_configs b drv c (dict_get d ''name'' PNone) w0) = Inr (T d)"
    and "fst (get_table_configs b drv c (dict_get d ''name'' PNone) w0) = Inr (T d)"
    by simp_all
  with get_table_configs_fst [of b drv c "dict_get d ''name'' PNone" w w0]
  obtain w1 where t: "get_table_configs b drv c (dict_get d ''name'' PNone) w = (Inr (T d), w1)"
    by (cases "get_table_configs b drv c (dict_get d ''name'' PNone) w") simp
  from Cons.IH [OF rest, of "done @ [PDict (AList.update ''tables'' (T d) d)]" w1] t
  show ?case by simp
qed

lemma keyspaces_loop_dicts:
  assumes "keyspaces_loop b rows acc = Inr out"
  shows "\<exists>S. out = acc @ map PDict S"
  using assms
proof (induction rows arbitrary: acc)
  case Nil
  then have "out = acc @ map PDict []" by simp
  then show ?case by (rule exI)
next
  case (Cons row rows)
  from Cons.prems obtain n where n: "py_lower (dict_get row ''keyspace_name'' PNone) = Inr n"
    by (cases "py_lower (dict_get row ''keyspace_name'' PNone)") simp_all
  show ?case
  proof (cases "n = ''system'' \<or> startswith n ''system_''")
    case True
    with Cons.prems n have "keyspaces_loop b rows acc = Inr out" by simp
    then show ?thesis by (rule Cons.IH)
  next
    case False
    with Cons.prems n obtain ks where "keyspace_row_loop b row [] = Inr ks"
      and "keyspaces_loop b rows (acc @ [PDict ks]) = Inr out"
      by (cases "keyspace_row_loop b row []") simp_all
    from Cons.IH [OF this(2)] obtain S where "out = (acc @ [PDict ks]) @ map PDict S" ..
    then have "out = acc @ map PDict (ks # S)" by simp
    then show ?thesis by (rule exI)
  qed
qed

lemma get_keyspace_configs_shape:
  assumes "fst (get_keyspace_configs b drv c w) = Inr keyspaces"
  shows "\<exists>S. keyspaces = PDict [(''keyspaces'', PList (map PDict S))]"
proof -
  obtain r w' where q: "exec_query drv c ''SELECT * FROM keyspaces'' w = (r, w')"
    by (cases "exec_query drv c ''SELECT * FROM keyspaces'' w")
  with assms obtain rows where r: "r = Inr rows"
    by (cases r) (simp_all add: get_keyspace_configs_def)
  with assms q obtain out where l: "keyspaces_loop b rows [] = Inr out"
    and k: "keyspaces = PDict [(''keyspaces'', PList out)]"
    by (cases "keyspaces_loop b rows []") (simp_all add: get_keyspace_configs_def)
  from keyspaces_loop_dicts [OF l] obtain S where "out = map PDict S" by auto
  with k have "keyspaces = PDict [(''keyspaces'', PList (map PDict S))]" by simp
  then show ?thesis by (rule exI)
qed

text \<open>
  Claim C8. Let \<open>get_keyspace_configs\<close> return the keyspaces \<open>S\<close> for the connection, and
  \<open>get_table_configs\<close> return \<open>T d\<close> for the name of each keyspace \<open>d\<close> of \<open>S\<close>. Then
  \<open>get_current_config\<close> returns the document whose \<^verbatim>\<open>keyspaces\<close> are those of \<open>S\<close>, in
  order, each with \<open>T d\<close> under \<^verbatim>\<open>tables\<close> and every other field as it was.
\<close>

theorem current_config_attaches_tables:
  assumes "fst (get_keyspace_configs b drv c w) =
             Inr (PDict [(''keyspaces'', PList (map PDict S))])"
    and "\<forall>d\<in>set S. fst (get_table_configs b drv c (dict_get d ''name'' PNone) w) = Inr (T d)"
  shows "fst (get_current_config b drv (Some c) w) =
           Inr (PDict [(''keyspaces'',
                        PList (map (\<lambda>d. PDict (AList.update ''tables'' (T d) d)) S))]) \<and>
         (\<forall>d\<in>set S. map_of (AList.update ''tables'' (T d) d) ''tables'' = Some (T d) \<and>
                     (\<forall>k. k \<noteq> ''tables'' \<longrightarrow>
                          map_of (AList.update ''tables'' (T d) d) k = map_of d k))"
proof -
  define c' where "c' = (if falsy (Some c) then get_local_connection else c)"
  have a: "cluster_args_of c' = cluster_args_of c"
    by (simp add: c'_def falsy_def cluster_args_of_empty)
  from assms(1) obtain w1 where
    k: "get_keyspace_configs b drv c' w = (Inr (PDict [(''keyspaces'', PList (map PDict S))]), w1)"
    by (cases "get_keyspace_configs b drv c w") (simp add: get_keyspace_configs_args [OF a])
  from assms(2) have
    "\<forall>d\<in>set S. fst (get_table_configs b drv c' (dict_get d ''name'' PNone) w) = Inr (T d)"
    by (simp add: get_table_configs_args [OF a])
  from attach_tables_result [OF this, of "[]" w1]
  obtain w2 where t: "attach_tables b drv c' (map PDict S) [] w1 =
      (Inr (map (\<lambda>d. PDict (AList.update ''tables'' (T d) d)) S), w2)"
    by (cases "attach_tables b drv c' (map PDict S) [] w1") simp
  have 1: "fst (get_current_config b drv (Some c) w) =
           Inr (PDict [(''keyspaces'',
                        PList (map (\<lambda>d. PDict (AList.update ''tables'' (T d) d)) S))])"
  proof -
    have "get_current_config b drv (Some c) w =
            (case get_keyspace_configs b drv c' w of
               (Inl e, w') \<Rightarrow> (Inl e, w')
             | (Inr keyspaces, w') \<Rightarrow>
                 (case keyspaces of
                    PDict kd \<Rightarrow>
                      (case dict_get kd ''keyspaces'' (PList []) of
                         PList kss \<Rightarrow>
                           (case attach_tables b drv c' kss [] w' of
                              (Inl e, w'') \<Rightarrow> (Inl e, w'')
                            | (Inr kss', w'') \<Rightarrow>
                                (Inr (PDict (AList.update ''keyspaces'' (PList kss') kd)), w''))
                       | _ \<Rightarrow> (Inl TypeError, w'))
                  | _ \<Rightarrow> (Inl AttributeError, w')))"
      unfolding get_current_config_def c'_def Let_def option.sel ..
    with k t show ?thesis by (simp add: dict_get_def)
  qed
  have 2: "\<forall>d\<in>set S. map_of (AList.update ''tables'' (T d) d) ''tables'' = Some (T d) \<and>
                     (\<forall>k. k \<noteq> ''tables'' \<longrightarrow>
                          map_of (AList.update ''tables'' (T d) d) k = map_of d k)"
    by (simp add: update_conv')
  from 1 2 show ?thesis by (rule conjI)
qed


text \<open>
  The sample cluster: the one keyspace that is listed, its one table, and the document.
\<close>

theorem current_config_attaches_tables_witness:
  "fst (get_keyspace_configs sample_builtins sample_driver get_local_connection fresh_world) =
     Inr (PDict [(''keyspaces'', PList (map PDict
       [[(''name'', PStr ''My_App''),
         (''durable_writes'', PBool True),
         (''replication'', PDict
            [(''class'', PStr ''NetworkTopologyStrategy''),
             (''data_centers'',
              PList [PDict [(''name'', PStr ''dc1''), (''replication_factor'', PInt 2)],
                     PDict [(''name'', PStr ''dc2''), (''replication_factor'', PInt 3)]])])]]))]) \<and>
   fst (get_table_configs sample_builtins sample_driver get_local_connection (PStr ''My_App'')
          fresh_world) =
     Inr (PList [PDict
       [(''name'', PStr ''users''),
        (''caching'', PDict [(''keys'', PStr ''ALL''), (''rows_per_partition'', PInt 1)]),
        (''compaction'', PDict [(''class'', PStr ''SizeTieredCompactionStrategy''),
                                (''max_threshold'', PInt 3)]),
        (''flags'', PList [PStr ''compound'']),
        (''gc_grace_seconds'', PInt 864000),
        (''id'', PStr ''00000000-0000-0000-0000-000000000000'')]]) \<and>
   fst (get_current_config sample_builtins sample_driver (Some get_local_connection) fresh_world) =
     Inr (PDict [(''keyspaces'', PList [PDict
       [(''name'', PStr ''My_App''),
        (''durable_writes'', PBool True),
        (''replication'', PDict
           [(''class'', PStr ''NetworkTopologyStrategy''),
            (''data_centers'',
             PList [PDict [(''name'', PStr ''dc1''), (''replication_factor'', PInt 2)],
                    PDict [(''name'', PStr ''dc2''), (''replication_factor'', PInt 3)]])]),
        (''tables'', PList [PDict
          [(''name'', PStr ''users''),
           (''caching'', PDict [(''keys'', PStr ''ALL''), (''rows_per_partition'', PInt 1)]),
           (''compaction'', PDict [(''class'', PStr ''SizeTieredCompactionStrategy''),
                                   (''max_threshold'', PInt 3)]),
           (''flags'', PList [PStr ''compound'']),
           (''gc_grace_seconds'', PInt 864000),
           (''id'', PStr ''00000000-0000-0000-0000-000000000000'')]])]])])"
proof -
  let ?ks = "[(''name'', PStr ''My_App''),
         (''durable_writes'', PBool True),
         (''replication'', PDict
            [(''class'', PStr ''NetworkTopologyStrategy''),
             (''data_centers'',
              PList [PDict [(''name'', PStr ''dc1''), (''replication_factor'', PInt 2)],
                     PDict [(''name'', PStr ''dc2''), (''replication_factor'', PInt 3)]])])]"
  let ?ts = "PList [PDict
       [(''name'', PStr ''users''),
        (''caching'', PDict [(''keys'', PStr ''ALL''), (''rows_per_partition'', PInt 1)]),
        (''compaction'', PDict [(''class'', PStr ''SizeTieredCompactionStrategy''),
                                (''max_threshold'', PInt 3)]),
        (''flags'', PList [PStr ''compound'']),
        (''gc_grace_seconds'', PInt 864000),
        (''id'', PStr ''00000000-0000-0000-0000-000000000000'')]]"
  have k: "fst (get_keyspace_configs sample_builtins sample_driver get_local_connection
                  fresh_world) = Inr (PDict [(''keyspaces'', PList (map PDict [?ks]))])"
    by code_simp
  have t: "fst (get_table_configs sample_builtins sample_driver get_local_connection
                  (PStr ''My_App'') fresh_world) = Inr ?ts"
    by code_simp
  have n: "dict_get ?ks ''name'' PNone = PStr ''My_App''"
    by (simp add: dict_get_def)
  from t n have ts: "\<forall>d\<in>set [?ks].
      fst (get_table_configs sample_builtins sample_driver get_local_connection
             (dict_get d ''name'' PNone) fresh_world) = Inr ((\<lambda>d. ?ts) d)"
    by simp
  from current_config_attaches_tables [OF k ts]
  have c: "fst (get_current_config sample_builtins sample_driver (Some get_local_connection)
                  fresh_world) =
           Inr (PDict [(''keyspaces'', PList [PDict (?ks @ [(''tables'', ?ts)])])])"
    by simp
  from k t c show ?thesis by simp
qed


end
